theory Spec2Isabelle
  imports Main "HOL-Library.Char_ord" "HOL-Library.List_Lexorder" "HOL-Library.Multiset"
begin

section \<open>Data model of \<^verbatim>\<open>statscraper/base_scraper.py\<close>\<close>

text \<open>
  Python objects live in typed stores (one list per class, an address is an index into
  it), because the source shares and mutates them: items are linked to parents and to
  the cursor, dimensions memoize their allowed values, and two class-level attributes
  (\<^verbatim>\<open>Dataset._data\<close> and \<^verbatim>\<open>Result.dimensionvalues\<close>) are one object each for the whole
  program. Every operation returns the state it leaves behind together with either its
  value or the exception it raised: a Python exception does not roll anything back.
\<close>

subsection \<open>Exceptions\<close>

datatype error =
    StopIteration
  | IndexError
  | NoSuchItem
  | DatasetNotInView
  | InvalidData
  | TypeError
  | AttributeError
  | UnboundLocalError
  | PyException

text \<open>\<^verbatim>\<open>NoSuchItem\<close> and \<^verbatim>\<open>DatasetNotInView\<close> are declared as subclasses of
  \<^verbatim>\<open>IndexError\<close>; an \<^verbatim>\<open>except IndexError\<close> clause catches the three of them.\<close>

fun isinstance_IndexError :: "error \<Rightarrow> bool" where
  "isinstance_IndexError IndexError = True"
| "isinstance_IndexError NoSuchItem = True"
| "isinstance_IndexError DatasetNotInView = True"
| "isinstance_IndexError _ = False"

subsection \<open>Values, keys and queries\<close>

datatype json =
    JNull
  | JBool bool
  | JInt int
  | JStr string
  | JList "json list"
  | JDict "(string \<times> json) list"

text \<open>Python truthiness, as used by \<^verbatim>\<open>if query:\<close>.\<close>

fun truthy :: "json \<Rightarrow> bool" where
  "truthy JNull = False"
| "truthy (JBool b) = b"
| "truthy (JInt n) = (n \<noteq> 0)"
| "truthy (JStr s) = (s \<noteq> [])"
| "truthy (JList xs) = (xs \<noteq> [])"
| "truthy (JDict kvs) = (kvs \<noteq> [])"

text \<open>The three kinds of key the lookups distinguish: a string (an id), an Item
  instance (an address in the item store), anything else is handed to
  \<^verbatim>\<open>list.__getitem__\<close>, here an integer index.\<close>

datatype key = KStr string | KItem nat | KIdx int

subsection \<open>Objects\<close>

text \<open>The attributes \<^verbatim>\<open>parent_\<close>, \<^verbatim>\<open>_items\<close>, \<^verbatim>\<open>_dimensions\<close> and
  \<^verbatim>\<open>_allowed_values\<close> are the fields \<open>parent_attr\<close>, \<open>items_attr\<close>,
  \<open>dimensions_attr\<close> and \<open>allowed_values_attr\<close>; \<open>None\<close> is Python's \<^verbatim>\<open>None\<close>.
  \<open>dim_scraper\<close> tells whether the attribute \<^verbatim>\<open>scraper\<close> of a Dimension has been
  set. Every Item in the store is linked to the one controller of the state.\<close>

datatype item_class = Collection | Dataset

record item =
  item_class :: item_class
  item_id :: string
  item_label :: string
  item_blob :: json
  parent_attr :: "nat option"
  items_attr :: "nat list option"
  dimensions_attr :: "nat list option"
  dialect :: "string option"
  query :: json

record 'av dimension =
  dim_id :: string
  dim_label :: string
  dim_datatype :: "string option"
  allowed_values_attr :: "'av option"
  dim_dataset :: "nat option"
  dim_scraper :: bool

record 'av dimensionvalue =
  dv_value :: json
  dv_id :: string
  dv_label :: string
  dv_datatype :: "string option"
  dv_allowed_values :: "'av option"
  dv_dimension :: nat

datatype 'av raw = Literal json | Prebuilt "'av dimensionvalue"

record 'av result =
  res_value :: json
  raw_dimensions :: nat
  res_resultset :: "nat option"
  res_dataset :: "nat option"

record resultset =
  rs_list :: "nat list"
  rs_dialect :: "string option"
  rs_dataset :: "nat option"

datatype event =
    HookInit | HookUp | HookTop | HookSelect
  | Call_fetch_itemslist nat
  | Call_fetch_dimensions nat
  | Call_fetch_allowed_values nat
  | Call_fetch_data nat json

text \<open>
  The state of the program: the object stores, the controller's cursor
  (\<^verbatim>\<open>current_item\<close>, \<^verbatim>\<open>_collection_path\<close>), the two class-level containers, and a
  trace that records each collaborator call and each point where a hook list is run.
  \<^verbatim>\<open>heap_dicts ! 0\<close> is the dictionary created once for the default argument
  \<^verbatim>\<open>dimensions={}\<close> of \<^verbatim>\<open>Result.__init__\<close>.
\<close>

record 'av state =
  heap_items :: "item list"
  heap_dimensions :: "'av dimension list"
  heap_dicts :: "(string \<times> 'av raw) list list"
  heap_results :: "'av result list"
  heap_resultsets :: "resultset list"
  current_item :: nat
  collection_path :: "nat list"
  Dataset_data :: "string \<rightharpoonup> nat"
  Result_dimensionvalues :: "'av dimensionvalue list"
  trace :: "event list"

text \<open>What a collaborator constructs and yields: the arguments of
  \<^verbatim>\<open>Collection(...)\<close> or \<^verbatim>\<open>Dataset(...)\<close> (and a dialect it may have set), and the
  arguments of \<^verbatim>\<open>Result(value, dimensions)\<close>, where \<open>None\<close> stands for an omitted
  \<^verbatim>\<open>dimensions\<close> argument.\<close>

record item_spec =
  spec_class :: item_class
  spec_id :: string
  spec_label :: "string option"
  spec_blob :: json
  spec_dialect :: "string option"

record 'av result_spec =
  rspec_value :: json
  rspec_dimensions :: "(string \<times> 'av raw) list option"

text \<open>
  The methods a scraper author overrides. A generator is a finite list of yields that
  ends normally or by raising (\<open>Some e\<close>); it reads the program state and the object it
  is called on. \<^verbatim>\<open>_fetch_allowed_values\<close> returns an object the core stores as it
  is. \<^verbatim>\<open>scraper_dialect\<close> is the class attribute \<^verbatim>\<open>dialect\<close>.
\<close>

record 'av scraper =
  fetch_itemslist :: "'av state \<Rightarrow> nat \<Rightarrow> item_spec list \<times> error option"
  fetch_dimensions :: "'av state \<Rightarrow> nat \<Rightarrow> 'av dimension list \<times> error option"
  fetch_allowed_values :: "'av state \<Rightarrow> nat \<Rightarrow> error + 'av option"
  fetch_data :: "'av state \<Rightarrow> nat \<Rightarrow> json \<Rightarrow> 'av result_spec list \<times> error option"
  scraper_dialect :: "string option"

section \<open>Ordered indexed collections\<close>

text \<open>\<^verbatim>\<open>next(filter(f, self))\<close>: the first element satisfying \<open>f\<close>; on an exhausted
  iterator \<^verbatim>\<open>next\<close> raises \<^verbatim>\<open>StopIteration\<close>.\<close>

fun next_filter :: "('a \<Rightarrow> bool) \<Rightarrow> 'a list \<Rightarrow> error + 'a" where
  "next_filter f xs = (case filter f xs of [] \<Rightarrow> Inl StopIteration | y # _ \<Rightarrow> Inr y)"

text \<open>\<^verbatim>\<open>list.__getitem__\<close> with an integer: negative indices count from the end,
  out of range raises \<^verbatim>\<open>IndexError\<close>.\<close>

definition list_getitem :: "'a list \<Rightarrow> int \<Rightarrow> error + 'a" where
  "list_getitem xs i =
     (if 0 \<le> i \<and> i < int (length xs) then Inr (xs ! nat i)
      else if i < 0 \<and> - int (length xs) \<le> i then Inr (xs ! nat (int (length xs) + i))
      else Inl IndexError)"

text \<open>The handler \<^verbatim>\<open>except IndexError: raise NoSuchItem(...)\<close> around the search.\<close>

fun except_IndexError_raise_NoSuchItem :: "error + 'a \<Rightarrow> error + 'a" where
  "except_IndexError_raise_NoSuchItem (Inr v) = Inr v"
| "except_IndexError_raise_NoSuchItem (Inl e) =
     (if isinstance_IndexError e then Inl NoSuchItem else Inl e)"

text \<open>\<^verbatim>\<open>Itemslist.__getitem__\<close>: the list holds addresses of items; \<open>ids\<close> reads the
  \<^verbatim>\<open>id\<close> attribute of the item at an address.\<close>

definition Itemslist_getitem :: "(nat \<Rightarrow> string) \<Rightarrow> nat list \<Rightarrow> key \<Rightarrow> error + nat" where
  "Itemslist_getitem ids xs k =
     (case k of
        KStr s \<Rightarrow> except_IndexError_raise_NoSuchItem (next_filter (\<lambda>x. ids x = s) xs)
      | KItem a \<Rightarrow> except_IndexError_raise_NoSuchItem (next_filter (\<lambda>x. x = a) xs)
      | KIdx i \<Rightarrow> list_getitem xs i)"

definition Itemslist_get :: "(nat \<Rightarrow> string) \<Rightarrow> nat list \<Rightarrow> key \<Rightarrow> error + nat" where
  "Itemslist_get ids xs k = Itemslist_getitem ids xs k"

text \<open>\<^verbatim>\<open>Itemslist.__contains__\<close>: by id for a string, otherwise the membership test
  of \<^verbatim>\<open>list\<close> (identity for an Item, which defines no equality; an integer equals no
  Item).\<close>

definition Itemslist_contains :: "(nat \<Rightarrow> string) \<Rightarrow> nat list \<Rightarrow> key \<Rightarrow> bool" where
  "Itemslist_contains ids xs k =
     (case k of
        KStr s \<Rightarrow> length (filter (\<lambda>x. ids x = s) xs) \<noteq> 0
      | KItem a \<Rightarrow> a \<in> set xs
      | KIdx i \<Rightarrow> False)"

text \<open>
  \<^verbatim>\<open>Dimensionslist.__getitem__\<close>: the same code over a list of Dimension or
  DimensionValue objects, \<open>ident\<close> reading an element's \<^verbatim>\<open>id\<close>. No element of such a
  list is an Item, so the identity search for an Item key finds nothing.
\<close>

definition Dimensionslist_getitem :: "('a \<Rightarrow> string) \<Rightarrow> 'a list \<Rightarrow> key \<Rightarrow> error + 'a" where
  "Dimensionslist_getitem ident xs k =
     (case k of
        KStr s \<Rightarrow> except_IndexError_raise_NoSuchItem (next_filter (\<lambda>x. ident x = s) xs)
      | KItem a \<Rightarrow> except_IndexError_raise_NoSuchItem (next_filter (\<lambda>x. False) xs)
      | KIdx i \<Rightarrow> list_getitem xs i)"

definition Dimensionslist_get :: "('a \<Rightarrow> string) \<Rightarrow> 'a list \<Rightarrow> key \<Rightarrow> error + 'a" where
  "Dimensionslist_get ident xs k = Dimensionslist_getitem ident xs k"

text \<open>\<^verbatim>\<open>Dimensionslist.__contains__\<close>: by id for a string; the other branch calls
  \<^verbatim>\<open>super(Itemslist, self)\<close> on an object that is no Itemslist, a \<^verbatim>\<open>TypeError\<close>.\<close>

definition Dimensionslist_contains :: "('a \<Rightarrow> string) \<Rightarrow> 'a list \<Rightarrow> key \<Rightarrow> error + bool" where
  "Dimensionslist_contains ident xs k =
     (case k of
        KStr s \<Rightarrow> Inr (length (filter (\<lambda>x. ident x = s) xs) \<noteq> 0)
      | _ \<Rightarrow> Inl TypeError)"

section \<open>Items and the cursor controller\<close>

definition ROOT :: string where
  "ROOT = ''<root>''"

text \<open>\<^verbatim>\<open>Item.__init__\<close>, with the class attributes of \<^verbatim>\<open>Item\<close> and \<^verbatim>\<open>Dataset\<close> as
  the initial values of the attributes it does not set.\<close>

definition Item_init :: "item_class \<Rightarrow> string \<Rightarrow> string option \<Rightarrow> json \<Rightarrow> item" where
  "Item_init c ident label blob =
     \<lparr> item_class = c, item_id = ident,
       item_label = (case label of None \<Rightarrow> ident | Some l \<Rightarrow> l),
       item_blob = blob, parent_attr = None, items_attr = None, dimensions_attr = None,
       dialect = None, query = JNull \<rparr>"

definition item_at :: "'av state \<Rightarrow> nat \<Rightarrow> item" where
  "item_at st a = heap_items st ! a"

definition id_at :: "'av state \<Rightarrow> nat \<Rightarrow> string" where
  "id_at st a = item_id (item_at st a)"

definition update_item :: "nat \<Rightarrow> (item \<Rightarrow> item) \<Rightarrow> 'av state \<Rightarrow> 'av state" where
  "update_item a f st = st\<lparr>heap_items := (heap_items st)[a := f (heap_items st ! a)]\<rparr>"

definition log :: "event \<Rightarrow> 'av state \<Rightarrow> 'av state" where
  "log e st = st\<lparr>trace := trace st @ [e]\<rparr>"

text \<open>\<^verbatim>\<open>Item.parent\<close>: raises a plain \<^verbatim>\<open>Exception\<close> on an item never put in a list.\<close>

definition Item_parent :: "'av state \<Rightarrow> nat \<Rightarrow> error + nat" where
  "Item_parent st a = (case parent_attr (item_at st a) of None \<Rightarrow> Inl PyException | Some p \<Rightarrow> Inr p)"

text \<open>
  One turn of the loop of \<^verbatim>\<open>Collection.items\<close>: the collaborator has constructed a
  new item \<open>i\<close>; the loop sets \<^verbatim>\<open>i.parent_\<close>, gives a Dataset without dialect the
  scraper's, and appends it to the collection's \<^verbatim>\<open>_items\<close>.
\<close>

definition adopt :: "'av scraper \<Rightarrow> nat \<Rightarrow> item_spec \<Rightarrow> 'av state \<Rightarrow> 'av state" where
  "adopt cb c sp st =
     (let a = length (heap_items st);
          i0 = (Item_init (spec_class sp) (spec_id sp) (spec_label sp) (spec_blob sp))
                 \<lparr>dialect := spec_dialect sp\<rparr>;
          i1 = i0\<lparr>parent_attr := Some c\<rparr>;
          i2 = (if item_class i1 = Dataset \<and> dialect i1 = None
                then i1\<lparr>dialect := scraper_dialect cb\<rparr> else i1);
          st1 = st\<lparr>heap_items := heap_items st @ [i2]\<rparr>
      in update_item c (\<lambda>it. it\<lparr>items_attr := Some (the (items_attr it) @ [a])\<rparr>) st1)"

text \<open>\<^verbatim>\<open>Collection.items\<close>: memoized; on first access the list is created empty, the
  collaborator is run and each yielded item adopted; if the generator raises, what was
  adopted so far stays memoized.\<close>

definition Collection_items :: "'av scraper \<Rightarrow> 'av state \<Rightarrow> nat \<Rightarrow> (error + nat list) \<times> 'av state" where
  "Collection_items cb st c =
     (case items_attr (item_at st c) of
        Some xs \<Rightarrow> (Inr xs, st)
      | None \<Rightarrow>
          (let st1 = update_item c (\<lambda>it. it\<lparr>items_attr := Some []\<rparr>) st;
               st2 = log (Call_fetch_itemslist c) st1;
               (specs, err) = fetch_itemslist cb st2 c;
               st3 = fold (adopt cb c) specs st2
           in case err of
                Some e \<Rightarrow> (Inl e, st3)
              | None \<Rightarrow> (Inr (the (items_attr (item_at st3 c))), st3)))"

text \<open>The \<^verbatim>\<open>items\<close> property of an item: \<^verbatim>\<open>Dataset.items\<close> is \<^verbatim>\<open>None\<close>.\<close>

definition Item_items :: "'av scraper \<Rightarrow> 'av state \<Rightarrow> nat \<Rightarrow> (error + nat list option) \<times> 'av state" where
  "Item_items cb st a =
     (case item_class (item_at st a) of
        Dataset \<Rightarrow> (Inr None, st)
      | Collection \<Rightarrow>
          (case Collection_items cb st a of
             (Inl e, st1) \<Rightarrow> (Inl e, st1)
           | (Inr xs, st1) \<Rightarrow> (Inr (Some xs), st1)))"

text \<open>\<^verbatim>\<open>BaseScraper.__init__\<close>, run in a fresh program: a root collection at address
  0, current and alone on the path; the class-level containers are empty.\<close>

definition BaseScraper_init :: "'av state" where
  "BaseScraper_init =
     \<lparr> heap_items = [Item_init Collection ROOT None JNull],
       heap_dimensions = [], heap_dicts = [[]], heap_results = [], heap_resultsets = [],
       current_item = 0, collection_path = [0],
       Dataset_data = Map.empty, Result_dimensionvalues = [],
       trace = [HookInit] \<rparr>"

definition BaseScraper_items :: "'av scraper \<Rightarrow> 'av state \<Rightarrow> (error + nat list option) \<times> 'av state" where
  "BaseScraper_items cb st = Item_items cb st (current_item st)"

text \<open>\<^verbatim>\<open>move_to_top\<close>: \<^verbatim>\<open>popleft\<close> of an empty deque raises \<^verbatim>\<open>IndexError\<close>.\<close>

definition move_to_top :: "'av state \<Rightarrow> (error + unit) \<times> 'av state" where
  "move_to_top st =
     (case collection_path st of
        [] \<Rightarrow> (Inl IndexError, st)
      | r # _ \<Rightarrow> (Inr (), log HookTop (st\<lparr>current_item := r, collection_path := [r]\<rparr>)))"

definition move_up :: "'av state \<Rightarrow> 'av state" where
  "move_up st =
     (let st1 = (if length (collection_path st) > 1
                 then (let p = butlast (collection_path st)
                       in st\<lparr>collection_path := p, current_item := last p\<rparr>)
                 else st);
          st2 = log HookUp st1
      in if length (collection_path st2) = 1 then log HookTop st2 else st2)"

text \<open>The handler of \<^verbatim>\<open>move_to\<close>:
  \<^verbatim>\<open>except (StopIteration, IndexError, NoSuchItem): raise NoSuchItem\<close>.\<close>

definition move_to_handler :: "error \<Rightarrow> error" where
  "move_to_handler e = (if e = StopIteration \<or> isinstance_IndexError e then NoSuchItem else e)"

text \<open>\<^verbatim>\<open>move_to\<close>: \<^verbatim>\<open>self.items[id_]\<close> inside the \<^verbatim>\<open>try\<close>; subscripting the \<^verbatim>\<open>None\<close>
  that a Dataset has for items is a \<^verbatim>\<open>TypeError\<close>, which the handler lets through.\<close>

definition move_to :: "'av scraper \<Rightarrow> 'av state \<Rightarrow> key \<Rightarrow> (error + unit) \<times> 'av state" where
  "move_to cb st k =
     (case BaseScraper_items cb st of
        (Inl e, st1) \<Rightarrow> (Inl (move_to_handler e), st1)
      | (Inr None, st1) \<Rightarrow> (Inl (move_to_handler TypeError), st1)
      | (Inr (Some xs), st1) \<Rightarrow>
          (case Itemslist_getitem (id_at st1) xs k of
             Inl e \<Rightarrow> (Inl (move_to_handler e), st1)
           | Inr a \<Rightarrow>
               (Inr (), log HookSelect
                  (st1\<lparr>current_item := a, collection_path := collection_path st1 @ [a]\<rparr>))))"

section \<open>Dimensions and dimension values\<close>

text \<open>
  \<^verbatim>\<open>Dimension.__init__(self, id_, label=None, allowed_values=None, datatype=None)\<close>.
  \<open>ident = None\<close> is a call that passes no \<^verbatim>\<open>id_\<close>: Python raises \<^verbatim>\<open>TypeError\<close>
  before the body runs. For the two optional arguments the body tests only their
  truth, so \<open>None\<close> stands for any false argument. The class \<^verbatim>\<open>Datatype\<close> comes from a
  module that is not part of the sources; it is the parameter \<open>Datatype\<close>, giving the
  \<^verbatim>\<open>allowed_values\<close> of \<^verbatim>\<open>Datatype(name)\<close> or the exception of the constructor.
\<close>

definition Dimension_init ::
  "(string \<Rightarrow> error + 'av option) \<Rightarrow> string option \<Rightarrow> string option \<Rightarrow> 'av option \<Rightarrow>
   string option \<Rightarrow> error + 'av dimension" where
  "Dimension_init Datatype ident label allowed_values datatype =
     (case ident of
        None \<Rightarrow> Inl TypeError
      | Some i \<Rightarrow>
          (let d0 = \<lparr> dim_id = i, dim_label = (case label of None \<Rightarrow> i | Some l \<Rightarrow> l),
                      dim_datatype = None, allowed_values_attr = None,
                      dim_dataset = None, dim_scraper = False \<rparr>
           in case (case datatype of
                      None \<Rightarrow> Inr d0
                    | Some n \<Rightarrow>
                        (case Datatype n of
                           Inl e \<Rightarrow> Inl e
                         | Inr av \<Rightarrow> Inr (d0\<lparr>dim_datatype := Some n, allowed_values_attr := av\<rparr>))) of
                Inl e \<Rightarrow> Inl e
              | Inr d1 \<Rightarrow>
                  Inr (case allowed_values of
                         None \<Rightarrow> d1
                       | Some a \<Rightarrow> d1\<lparr>allowed_values_attr := Some a\<rparr>)))"

definition dim_at :: "'av state \<Rightarrow> nat \<Rightarrow> 'av dimension" where
  "dim_at st d = heap_dimensions st ! d"

definition dim_id_at :: "'av state \<Rightarrow> nat \<Rightarrow> string" where
  "dim_id_at st d = dim_id (dim_at st d)"

definition update_dim :: "nat \<Rightarrow> ('av dimension \<Rightarrow> 'av dimension) \<Rightarrow> 'av state \<Rightarrow> 'av state" where
  "update_dim d f st = st\<lparr>heap_dimensions := (heap_dimensions st)[d := f (heap_dimensions st ! d)]\<rparr>"

text \<open>The property \<^verbatim>\<open>Dimension.allowed_values\<close>: while \<^verbatim>\<open>_allowed_values\<close> is
  \<^verbatim>\<open>None\<close> it asks \<^verbatim>\<open>self.scraper._fetch_allowed_values(self)\<close> and stores what it
  gets; a Dimension without \<^verbatim>\<open>scraper\<close> attribute fails with \<^verbatim>\<open>AttributeError\<close>.\<close>

definition Dimension_allowed_values ::
  "'av scraper \<Rightarrow> 'av state \<Rightarrow> nat \<Rightarrow> (error + 'av option) \<times> 'av state" where
  "Dimension_allowed_values cb st d =
     (case allowed_values_attr (dim_at st d) of
        Some av \<Rightarrow> (Inr (Some av), st)
      | None \<Rightarrow>
          (if \<not> dim_scraper (dim_at st d) then (Inl AttributeError, st)
           else (let st1 = log (Call_fetch_allowed_values d) st
                 in case fetch_allowed_values cb st1 d of
                      Inl e \<Rightarrow> (Inl e, st1)
                    | Inr av \<Rightarrow> (Inr av, update_dim d (\<lambda>dm. dm\<lparr>allowed_values_attr := av\<rparr>) st1))))"

text \<open>\<^verbatim>\<open>DimensionValue.__init__(self, value, dimension)\<close>: id, label and datatype are
  copied from the dimension, the allowed values read through the property.\<close>

definition DimensionValue_init ::
  "'av scraper \<Rightarrow> 'av state \<Rightarrow> json \<Rightarrow> nat \<Rightarrow> (error + 'av dimensionvalue) \<times> 'av state" where
  "DimensionValue_init cb st v d =
     (case Dimension_allowed_values cb st d of
        (Inl e, st1) \<Rightarrow> (Inl e, st1)
      | (Inr av, st1) \<Rightarrow>
          (Inr \<lparr> dv_value = v, dv_id = dim_id (dim_at st d), dv_label = dim_label (dim_at st d),
                 dv_datatype = dim_datatype (dim_at st d), dv_allowed_values = av,
                 dv_dimension = d \<rparr>, st1))"

section \<open>Datasets: repositioning, dimensions\<close>

text \<open>\<^verbatim>\<open>Dataset._move_here\<close>. \<^verbatim>\<open>self in self.parent.items\<close> is the membership test of
  the parent's Itemslist with an Item; a parent without items (\<^verbatim>\<open>None\<close>) makes it a
  \<^verbatim>\<open>TypeError\<close>. Only \<^verbatim>\<open>NoSuchItem\<close> itself is turned into \<^verbatim>\<open>DatasetNotInView\<close>.\<close>

definition Dataset_move_here :: "'av scraper \<Rightarrow> 'av state \<Rightarrow> nat \<Rightarrow> (error + unit) \<times> 'av state" where
  "Dataset_move_here cb st a =
     (case Item_parent st a of
        Inl e \<Rightarrow> (Inl e, st)
      | Inr p \<Rightarrow>
          (case Item_items cb st p of
             (Inl e, st1) \<Rightarrow> (Inl e, st1)
           | (Inr None, st1) \<Rightarrow> (Inl TypeError, st1)
           | (Inr (Some xs), st1) \<Rightarrow>
               (let st2 = (if Itemslist_contains (id_at st1) xs (KItem a) then move_up st1 else st1)
                in case move_to cb st2 (KStr (id_at st2 a)) of
                     (Inl e, st3) \<Rightarrow> (Inl (if e = NoSuchItem then DatasetNotInView else e), st3)
                   | (Inr u, st3) \<Rightarrow> (Inr u, st3))))"

text \<open>One turn of the loop of \<^verbatim>\<open>Dataset.dimensions\<close> over the Dimension objects
  the collaborator yields.\<close>

definition attach :: "nat \<Rightarrow> 'av dimension \<Rightarrow> 'av state \<Rightarrow> 'av state" where
  "attach a d st =
     (let n = length (heap_dimensions st);
          st1 = st\<lparr>heap_dimensions := heap_dimensions st @ [d\<lparr>dim_dataset := Some a, dim_scraper := True\<rparr>]\<rparr>
      in update_item a (\<lambda>it. it\<lparr>dimensions_attr := Some (the (dimensions_attr it) @ [n])\<rparr>) st1)"

definition Dataset_dimensions :: "'av scraper \<Rightarrow> 'av state \<Rightarrow> nat \<Rightarrow> (error + nat list) \<times> 'av state" where
  "Dataset_dimensions cb st a =
     (case (if current_item st \<noteq> a then Dataset_move_here cb st a else (Inr (), st)) of
        (Inl e, st1) \<Rightarrow> (Inl e, st1)
      | (Inr u, st1) \<Rightarrow>
          (case dimensions_attr (item_at st1 a) of
             Some ds \<Rightarrow> (Inr ds, st1)
           | None \<Rightarrow>
               (let st2 = update_item a (\<lambda>it. it\<lparr>dimensions_attr := Some []\<rparr>) st1;
                    st3 = log (Call_fetch_dimensions a) st2;
                    (ds, err) = fetch_dimensions cb st3 a;
                    st4 = fold (attach a) ds st3
                in case err of
                     Some e \<Rightarrow> (Inl e, st4)
                   | None \<Rightarrow> (Inr (the (dimensions_attr (item_at st4 a))), st4))))"

section \<open>Results and result sets\<close>

text \<open>\<^verbatim>\<open>Result.__init__(self, value, dimensions={})\<close>: \<open>dimensions\<close> is the address of
  the dictionary passed, and \<open>None\<close> an omitted argument, which binds the one default
  dictionary at address 0. \<^verbatim>\<open>dimensionvalues\<close> is not set on the instance: every read
  of \<^verbatim>\<open>result.dimensionvalues\<close> finds the list of the class.\<close>

definition Result_init :: "json \<Rightarrow> nat option \<Rightarrow> 'av result" where
  "Result_init v dimensions =
     \<lparr> res_value = v, raw_dimensions = (case dimensions of None \<Rightarrow> 0 | Some r \<Rightarrow> r),
       res_resultset = None, res_dataset = None \<rparr>"

definition Result_dimensionvalues_of :: "'av state \<Rightarrow> nat \<Rightarrow> 'av dimensionvalue list" where
  "Result_dimensionvalues_of st r = Result_dimensionvalues st"

text \<open>\<^verbatim>\<open>Result.__getitem__\<close> with a string key.\<close>

definition Result_getitem :: "'av state \<Rightarrow> nat \<Rightarrow> string \<Rightarrow> error + 'av dimensionvalue" where
  "Result_getitem st r k = Dimensionslist_getitem dv_id (Result_dimensionvalues_of st r) (KStr k)"

text \<open>The collaborator's \<^verbatim>\<open>yield Result(value, {...})\<close>: a new dictionary, when one is
  written, and a new Result.\<close>

definition new_result :: "'av result_spec \<Rightarrow> 'av state \<Rightarrow> nat \<times> 'av state" where
  "new_result sp st =
     (case rspec_dimensions sp of
        None \<Rightarrow>
          (length (heap_results st),
           st\<lparr>heap_results := heap_results st @ [Result_init (rspec_value sp) None]\<rparr>)
      | Some kvs \<Rightarrow>
          (length (heap_results st),
           st\<lparr>heap_dicts := heap_dicts st @ [kvs],
              heap_results := heap_results st @
                 [Result_init (rspec_value sp) (Some (length (heap_dicts st)))]\<rparr>))"

definition dimensionvalues_append :: "'av dimensionvalue \<Rightarrow> 'av state \<Rightarrow> 'av state" where
  "dimensionvalues_append dv st = st\<lparr>Result_dimensionvalues := Result_dimensionvalues st @ [dv]\<rparr>"

text \<open>
  The body of the loop of \<^verbatim>\<open>ResultSet.append\<close> up to, and without, its last
  statement: it returns the local variable \<^verbatim>\<open>dim\<close> as the branch leaves it (\<open>None\<close>:
  not yet bound). \<open>dd\<close> is the local \<^verbatim>\<open>dataset_dimensions\<close>. The anonymous dimension
  is built by \<^verbatim>\<open>Dimension()\<close>, a call without \<^verbatim>\<open>id_\<close>.
\<close>

definition resolve_one ::
  "'av scraper \<Rightarrow> nat \<Rightarrow> nat list \<Rightarrow> string \<Rightarrow> 'av raw \<Rightarrow> 'av dimensionvalue option \<Rightarrow> 'av state \<Rightarrow>
   (error + 'av dimensionvalue option) \<times> 'av state" where
  "resolve_one cb d dd k v dim st =
     (case v of
        Prebuilt dv \<Rightarrow> (Inr dim, dimensionvalues_append dv st)
      | Literal x \<Rightarrow>
          (case Dataset_dimensions cb st d of
             (Inl e, st1) \<Rightarrow> (Inl e, st1)
           | (Inr ds, st1) \<Rightarrow>
               (case Dimensionslist_contains (dim_id_at st1) ds (KStr k) of
                  Inl e \<Rightarrow> (Inl e, st1)
                | Inr True \<Rightarrow>
                    (case Dimensionslist_getitem (dim_id_at st1) dd (KStr k) of
                       Inl e \<Rightarrow> (Inl e, st1)
                     | Inr da \<Rightarrow>
                         (case DimensionValue_init cb st1 x da of
                            (Inl e, st2) \<Rightarrow> (Inl e, st2)
                          | (Inr dv, st2) \<Rightarrow> (Inr (Some dv), st2)))
                | Inr False \<Rightarrow>
                    (case Dimension_init (\<lambda>n. Inr None) None None None None of
                       Inl e \<Rightarrow> (Inl e, st1)
                     | Inr nd \<Rightarrow>
                         (let da = length (heap_dimensions st1);
                              st2 = st1\<lparr>heap_dimensions := heap_dimensions st1 @ [nd]\<rparr>
                          in case DimensionValue_init cb st2 x da of
                               (Inl e, st3) \<Rightarrow> (Inl e, st3)
                             | (Inr dv, st3) \<Rightarrow> (Inr (Some dv), st3))))))"

text \<open>The loop over \<^verbatim>\<open>val.raw_dimensions.items()\<close>. Its last statement,
  \<^verbatim>\<open>val.dimensionvalues.append(dim)\<close>, stands after the \<^verbatim>\<open>if\<close>/\<^verbatim>\<open>else\<close> and runs in
  every turn; reading an unbound local raises \<^verbatim>\<open>UnboundLocalError\<close>.\<close>

fun resolve_dimensions ::
  "'av scraper \<Rightarrow> nat \<Rightarrow> nat list \<Rightarrow> (string \<times> 'av raw) list \<Rightarrow> 'av dimensionvalue option \<Rightarrow>
   'av state \<Rightarrow> (error + unit) \<times> 'av state" where
  "resolve_dimensions cb d dd [] dim st = (Inr (), st)"
| "resolve_dimensions cb d dd (kv # kvs) dim st =
     (case resolve_one cb d dd (fst kv) (snd kv) dim st of
        (Inl e, st1) \<Rightarrow> (Inl e, st1)
      | (Inr None, st1) \<Rightarrow> (Inl UnboundLocalError, st1)
      | (Inr (Some dv), st1) \<Rightarrow>
          resolve_dimensions cb d dd kvs (Some dv) (dimensionvalues_append dv st1))"

definition list_append :: "nat \<Rightarrow> nat \<Rightarrow> 'av state \<Rightarrow> 'av state" where
  "list_append rs val st =
     st\<lparr>heap_resultsets := (heap_resultsets st)
          [rs := (heap_resultsets st ! rs)\<lparr>rs_list := rs_list (heap_resultsets st ! rs) @ [val]\<rparr>]\<rparr>"

text \<open>\<^verbatim>\<open>ResultSet.append(self, val)\<close>; a Dataset object is true, \<^verbatim>\<open>None\<close> is false.\<close>

definition ResultSet_append :: "'av scraper \<Rightarrow> 'av state \<Rightarrow> nat \<Rightarrow> nat \<Rightarrow> (error + unit) \<times> 'av state" where
  "ResultSet_append cb st rs val =
     (let ds = rs_dataset (heap_resultsets st ! rs);
          st1 = st\<lparr>heap_results := (heap_results st)
                   [val := (heap_results st ! val)\<lparr>res_resultset := Some rs, res_dataset := ds\<rparr>]\<rparr>
      in case ds of
           None \<Rightarrow> (Inr (), list_append rs val st1)
         | Some d \<Rightarrow>
             (case Dataset_dimensions cb st1 d of
                (Inl e, st2) \<Rightarrow> (Inl e, st2)
              | (Inr dd, st2) \<Rightarrow>
                  (case resolve_dimensions cb d dd
                          (heap_dicts st2 ! raw_dimensions (heap_results st2 ! val)) None st2 of
                     (Inl e, st3) \<Rightarrow> (Inl e, st3)
                   | (Inr u, st3) \<Rightarrow> (Inr (), list_append rs val st3))))"

section \<open>Cached fetch\<close>

text \<open>\<^verbatim>\<open>dumps(query, sort_keys=True)\<close> writes every dictionary with its items sorted
  by key; that is the encoder without sorting applied to the query with every
  dictionary rebuilt in key order.\<close>

fun sort_keys :: "json \<Rightarrow> json" where
  "sort_keys (JDict kvs) = JDict (sort_key fst (map (\<lambda>kv. (fst kv, sort_keys (snd kv))) kvs))"
| "sort_keys (JList xs) = JList (map sort_keys xs)"
| "sort_keys j = j"

text \<open>\<^verbatim>\<open>Dataset._hash\<close>; the library functions \<^verbatim>\<open>md5(...).hexdigest()\<close> and the
  encoder of \<^verbatim>\<open>json.dumps\<close> are the parameters \<open>md5\<close> and \<open>dumps\<close>.\<close>

definition Dataset_hash :: "(string \<Rightarrow> string) \<Rightarrow> (json \<Rightarrow> string) \<Rightarrow> json \<Rightarrow> string" where
  "Dataset_hash md5 dumps q = md5 (dumps (sort_keys q))"

text \<open>The loop of \<^verbatim>\<open>fetch\<close> over the rows the collaborator yields.\<close>

fun append_all :: "'av scraper \<Rightarrow> nat \<Rightarrow> 'av result_spec list \<Rightarrow> 'av state \<Rightarrow> (error + unit) \<times> 'av state" where
  "append_all cb rs [] st = (Inr (), st)"
| "append_all cb rs (sp # sps) st =
     (case new_result sp st of
        (r, st1) \<Rightarrow>
          (case ResultSet_append cb st1 rs r of
             (Inl e, st2) \<Rightarrow> (Inl e, st2)
           | (Inr u, st2) \<Rightarrow> append_all cb rs sps st2))"

text \<open>\<^verbatim>\<open>Dataset.fetch(self, query=None)\<close>. \<^verbatim>\<open>self._data\<close> is never assigned on an
  instance: it is the dictionary of the class, read and written in place.\<close>

definition Dataset_fetch ::
  "(string \<Rightarrow> string) \<Rightarrow> (json \<Rightarrow> string) \<Rightarrow> 'av scraper \<Rightarrow> 'av state \<Rightarrow> nat \<Rightarrow> json \<Rightarrow>
   (error + nat) \<times> 'av state" where
  "Dataset_fetch md5 dumps cb st a q =
     (let st1 = (if truthy q then update_item a (\<lambda>it. it\<lparr>query := q\<rparr>) st else st);
          h = Dataset_hash md5 dumps (query (item_at st1 a))
      in case Dataset_data st1 h of
           Some rs \<Rightarrow> (Inr rs, st1)
         | None \<Rightarrow>
             (case (if current_item st1 \<noteq> a then Dataset_move_here cb st1 a else (Inr (), st1)) of
                (Inl e, st2) \<Rightarrow> (Inl e, st2)
              | (Inr u, st2) \<Rightarrow>
                  (let rs = length (heap_resultsets st2);
                       st3 = st2\<lparr>heap_resultsets := heap_resultsets st2 @
                                 [\<lparr> rs_list = [], rs_dialect = dialect (item_at st2 a),
                                    rs_dataset = Some a \<rparr>]\<rparr>;
                       st4 = log (Call_fetch_data a (query (item_at st3 a))) st3;
                       (rows, err) = fetch_data cb st4 a (query (item_at st4 a))
                   in case append_all cb rs rows st4 of
                        (Inl e, st5) \<Rightarrow> (Inl e, st5)
                      | (Inr u, st5) \<Rightarrow>
                          (case err of
                             Some e \<Rightarrow> (Inl e, st5)
                           | None \<Rightarrow> (Inr rs, st5\<lparr>Dataset_data := (Dataset_data st5)(h \<mapsto> rs)\<rparr>)))))"


section \<open>The scrapers of the test suite\<close>

text \<open>
  \<^verbatim>\<open>tests/test_base_scraper.py\<close> defines two scrapers with hardcoded yields. Their
  allowed values are a list of strings given to the constructor, or the generator
  object that calling \<^verbatim>\<open>_fetch_allowed_values\<close> returns.
\<close>

datatype allowed = Strings "string list" | GeneratorObject

text \<open>A generator whose yields are constructor calls: it yields the objects built
  until a constructor raises.\<close>

fun yield_all :: "(error + 'a) list \<Rightarrow> 'a list \<times> error option" where
  "yield_all [] = ([], None)"
| "yield_all (Inl e # cs) = ([], Some e)"
| "yield_all (Inr x # cs) = (case yield_all cs of (xs, err) \<Rightarrow> (x # xs, err))"

definition no_Datatype :: "string \<Rightarrow> error + allowed option" where
  "no_Datatype n = Inl PyException"

definition Dataset_spec :: "string \<Rightarrow> item_spec" where
  "Dataset_spec i = \<lparr> spec_class = Dataset, spec_id = i, spec_label = None, spec_blob = JNull,
                      spec_dialect = None \<rparr>"

definition Collection_spec :: "string \<Rightarrow> item_spec" where
  "Collection_spec i = \<lparr> spec_class = Collection, spec_id = i, spec_label = None, spec_blob = JNull,
                         spec_dialect = None \<rparr>"

definition Umea_kommun :: string where
  "Umea_kommun = ''Ume'' @ [char_of (0xC3 :: nat), char_of (0xA5 :: nat)] @ '' kommun''"

definition Scraper_fetch_dimensions :: "allowed dimension list \<times> error option" where
  "Scraper_fetch_dimensions =
     yield_all
       [ Dimension_init no_Datatype (Some ''date'') None None None,
         Dimension_init no_Datatype (Some ''municipality'') None
           (Some (Strings [''Robertsfors kommun'', Umea_kommun])) None,
         Dimension_init no_Datatype (Some ''gender'') None None None ]"

definition Scraper_fetch_data :: "string \<Rightarrow> allowed result_spec list \<times> error option" where
  "Scraper_fetch_data i =
     (if i = ''Dataset_1'' then
        ([ \<lparr> rspec_value = JInt 127,
              rspec_dimensions = Some [ (''date'', Literal (JStr ''2017-08-10'')),
                                        (''municipality'', Literal (JStr ''Robertsfors kommun'')) ] \<rparr> ],
         None)
      else if i = ''Dataset_2'' then
        ([ \<lparr> rspec_value = JInt 12,
              rspec_dimensions = Some [ (''date'', Literal (JStr ''2017-02-06'')),
                                        (''municipality'', Literal (JStr Umea_kommun)) ] \<rparr>,
           \<lparr> rspec_value = JInt 130,
              rspec_dimensions = Some [ (''date'', Literal (JStr ''2017-02-07'')),
                                        (''municipality'', Literal (JStr ''Robertsfors kommun'')) ] \<rparr> ],
         None)
      else ([], None))"

definition Scraper :: "allowed scraper" where
  "Scraper =
     \<lparr> fetch_itemslist =
         (\<lambda>st a. ([Dataset_spec ''Dataset_1'', Dataset_spec ''Dataset_2'', Dataset_spec ''Dataset_3''],
                   None)),
       fetch_dimensions = (\<lambda>st a. Scraper_fetch_dimensions),
       fetch_allowed_values = (\<lambda>st d. Inr (Some GeneratorObject)),
       fetch_data = (\<lambda>st a q. Scraper_fetch_data (id_at st a)),
       scraper_dialect = None \<rparr>"

definition NestedScraper :: "allowed scraper" where
  "NestedScraper =
     Scraper\<lparr> fetch_itemslist :=
       (\<lambda>st a. if id_at st a = ROOT then
                  ([Collection_spec ''Collection_1'', Collection_spec ''Collection_2''], None)
                else if id_at st a = ''Collection_1'' then ([Dataset_spec ''Dataset_1''], None)
                else if id_at st a = ''Collection_2'' then
                  ([Dataset_spec ''Dataset_2'', Dataset_spec ''Dataset_3''], None)
                else ([], Some PyException)) \<rparr>"

text \<open>The test suite's first step, \<^verbatim>\<open>scraper = Scraper(); scraper.items\<close>: the root's
  three datasets are in the store at addresses 1, 2 and 3.\<close>

definition Scraper_listed :: "allowed state" where
  "Scraper_listed = snd (BaseScraper_items Scraper BaseScraper_init)"

section \<open>The path stack as a chain, and well-formed stores\<close>

text \<open>The invariant of the path stack: its first element is the root collection (the
  item \<^verbatim>\<open>__init__\<close> created, at address 0), each element is the \<^verbatim>\<open>parent_\<close> of the
  next, and the last one is the current item.\<close>

fun chain :: "'av state \<Rightarrow> nat list \<Rightarrow> bool" where
  "chain st (p # c # rest) = (parent_attr (item_at st c) = Some p \<and> chain st (c # rest))"
| "chain st [x] = True"
| "chain st [] = True"

definition is_root :: "'av state \<Rightarrow> nat \<Rightarrow> bool" where
  "is_root st r = (r = 0 \<and> item_class (item_at st r) = Collection \<and> item_id (item_at st r) = ROOT
                   \<and> parent_attr (item_at st r) = None)"

definition path_invariant :: "'av state \<Rightarrow> bool" where
  "path_invariant st =
     (case collection_path st of
        [] \<Rightarrow> False
      | r # rest \<Rightarrow> is_root st r \<and> chain st (r # rest) \<and> last (r # rest) = current_item st)"

text \<open>
  What lazy materialization maintains in the item store: the children listed in a
  collection's \<^verbatim>\<open>_items\<close> are in the store and have that collection as \<^verbatim>\<open>parent_\<close>;
  an item with a parent is listed in that parent, a Collection; only the root has no
  parent.
\<close>

definition heap_ok :: "'av state \<Rightarrow> bool" where
  "heap_ok st =
     (heap_items st \<noteq> [] \<and>
      (\<forall>c xs. c < length (heap_items st) \<and> items_attr (item_at st c) = Some xs \<longrightarrow>
          (\<forall>x\<in>set xs. x < length (heap_items st) \<and> parent_attr (item_at st x) = Some c)) \<and>
      (\<forall>x p. x < length (heap_items st) \<and> parent_attr (item_at st x) = Some p \<longrightarrow>
          p < length (heap_items st) \<and> item_class (item_at st p) = Collection \<and>
          (\<exists>xs. items_attr (item_at st p) = Some xs \<and> x \<in> set xs)) \<and>
      (\<forall>x. x < length (heap_items st) \<and> parent_attr (item_at st x) = None \<longrightarrow> x = 0))"

definition well_formed :: "'av state \<Rightarrow> bool" where
  "well_formed st = (heap_ok st \<and> path_invariant st \<and> list_all (\<lambda>x. x < length (heap_items st)) (collection_path st))"

text \<open>The later state keeps every item of the earlier one, with its class, id and
  parent.\<close>

definition same_links :: "'av state \<Rightarrow> 'av state \<Rightarrow> bool" where
  "same_links st st' =
     (length (heap_items st) \<le> length (heap_items st') \<and>
      (\<forall>x < length (heap_items st).
          parent_attr (item_at st' x) = parent_attr (item_at st x) \<and>
          item_class (item_at st' x) = item_class (item_at st x) \<and>
          item_id (item_at st' x) = item_id (item_at st x)))"

text \<open>The three navigation operations, and the state a call leaves behind, whether it
  returned or raised.\<close>

datatype nav_op = MoveTo key | MoveUp | MoveToTop

fun run_op :: "'av scraper \<Rightarrow> nav_op \<Rightarrow> 'av state \<Rightarrow> 'av state" where
  "run_op cb (MoveTo k) st = snd (move_to cb st k)"
| "run_op cb MoveUp st = move_up st"
| "run_op cb MoveToTop st = snd (move_to_top st)"



section \<open>Queries that differ in key order\<close>

text \<open>Two queries are structurally equal when they are the same scalar, lists of
  structurally equal elements, or dictionaries with the same keys (each once) and
  structurally equal values under each key, in whatever order the keys were inserted:
  the equality \<^verbatim>\<open>==\<close> of Python on such values.\<close>

inductive structurally_equal :: "json \<Rightarrow> json \<Rightarrow> bool" where
  se_null: "structurally_equal JNull JNull"
| se_bool: "structurally_equal (JBool b) (JBool b)"
| se_int: "structurally_equal (JInt n) (JInt n)"
| se_str: "structurally_equal (JStr s) (JStr s)"
| se_list: "list_all2 structurally_equal xs ys \<Longrightarrow> structurally_equal (JList xs) (JList ys)"
| se_dict: "distinct (map fst kvs) \<Longrightarrow> distinct (map fst kvs') \<Longrightarrow>
            set (map fst kvs) = set (map fst kvs') \<Longrightarrow>
            (\<forall>k v. (k, v) \<in> set kvs \<longrightarrow> (\<exists>v'. (k, v') \<in> set kvs' \<and> structurally_equal v v')) \<Longrightarrow>
            structurally_equal (JDict kvs) (JDict kvs')"

text \<open>A sample pair of queries, and a stand-in digest that reads the keys of a
  dictionary in the order given.\<close>

definition keys_digest :: "json \<Rightarrow> string" where
  "keys_digest j = (case j of JDict kvs \<Rightarrow> concat (map fst kvs) | _ \<Rightarrow> [])"

definition query_ab :: json where
  "query_ab = JDict [(''a'', JInt 1), (''b'', JStr ''x'')]"

definition query_ba :: json where
  "query_ba = JDict [(''b'', JStr ''x''), (''a'', JInt 1)]"

section \<open>Dimension values attached by an append\<close>

text \<open>Nothing of the results changed between two states: the dictionaries, the Result
  objects, the result sets and the class-level list of dimension values.\<close>

definition same_results :: "'av state \<Rightarrow> 'av state \<Rightarrow> bool" where
  "same_results st st' =
     (heap_dicts st' = heap_dicts st \<and> heap_results st' = heap_results st \<and>
      heap_resultsets st' = heap_resultsets st \<and>
      Result_dimensionvalues st' = Result_dimensionvalues st)"

text \<open>The raw tag \<open>(k, v)\<close> of a Result has its resolved value in the list \<open>vs\<close>: the
  DimensionValue itself when the tag holds one, otherwise a DimensionValue with the
  tag's value and the tag's key as id.\<close>

definition tag_visible :: "string \<Rightarrow> 'av raw \<Rightarrow> 'av dimensionvalue list \<Rightarrow> bool" where
  "tag_visible k v vs =
     (case v of
        Prebuilt dv \<Rightarrow> dv \<in> set vs
      | Literal x \<Rightarrow> list_ex (\<lambda>dv. dv_value dv = x \<and> dv_id dv = k) vs)"

section \<open>States and inputs of the test scenarios\<close>

text \<open>
  \<^verbatim>\<open>dataset = scraper.items[0]; dataset.dimensions\<close> (the cursor is moved to
  \<^verbatim>\<open>Dataset_1\<close> and its three dimensions are at addresses 0, 1, 2), and
  \<^verbatim>\<open>dataset.fetch()\<close>. \<open>with_resultset\<close> is the \<^verbatim>\<open>rs = ResultSet(); rs.dialect = ...;
  rs.dataset = self\<close> of \<^verbatim>\<open>fetch\<close>. \<open>gender_value v\<close> and \<open>date_value v\<close> are what
  \<^verbatim>\<open>DimensionValue(v, dimension)\<close> builds from the dimensions \<^verbatim>\<open>gender\<close> and \<^verbatim>\<open>date\<close>
  of that dataset. \<open>row_with tags\<close> is a new \<^verbatim>\<open>Result(1, tags)\<close> beside a new result set
  owned by \<^verbatim>\<open>Dataset_1\<close>; \<open>omitted v\<close> is \<^verbatim>\<open>Result(v)\<close>.
\<close>

definition Scraper_with_dimensions :: "allowed state" where
  "Scraper_with_dimensions = snd (Dataset_dimensions Scraper Scraper_listed 1)"

definition Scraper_fetched :: "(string \<Rightarrow> string) \<Rightarrow> (json \<Rightarrow> string) \<Rightarrow> allowed state" where
  "Scraper_fetched md5 dumps = snd (Dataset_fetch md5 dumps Scraper Scraper_listed 1 JNull)"

definition with_resultset :: "nat \<Rightarrow> 'av state \<Rightarrow> 'av state" where
  "with_resultset a st =
     st\<lparr>heap_resultsets := heap_resultsets st @
          [\<lparr> rs_list = [], rs_dialect = dialect (item_at st a), rs_dataset = Some a \<rparr>]\<rparr>"

definition gender_value :: "string \<Rightarrow> allowed dimensionvalue" where
  "gender_value v =
     \<lparr> dv_value = JStr v, dv_id = ''gender'', dv_label = ''gender'', dv_datatype = None,
       dv_allowed_values = Some GeneratorObject, dv_dimension = 2 \<rparr>"

definition date_value :: "string \<Rightarrow> allowed dimensionvalue" where
  "date_value v =
     \<lparr> dv_value = JStr v, dv_id = ''date'', dv_label = ''date'', dv_datatype = None,
       dv_allowed_values = Some GeneratorObject, dv_dimension = 0 \<rparr>"

definition row_with :: "(string \<times> allowed raw) list \<Rightarrow> nat \<times> allowed state" where
  "row_with tags =
     new_result \<lparr> rspec_value = JInt 1, rspec_dimensions = Some tags \<rparr>
       (with_resultset 1 Scraper_with_dimensions)"

definition omitted :: "json \<Rightarrow> 'av result_spec" where
  "omitted v = \<lparr> rspec_value = v, rspec_dimensions = None \<rparr>"

definition Dataset_1_tags :: "(string \<times> allowed raw) list" where
  "Dataset_1_tags = [(''date'', Literal (JStr ''2017-08-10'')),
                     (''municipality'', Literal (JStr ''Robertsfors kommun''))]"




section \<open>Evaluation\<close>

lemmas model_defs =
  BaseScraper_items_def Item_items_def Collection_items_def BaseScraper_init_def Item_init_def
  item_at_def update_item_def log_def Scraper_def adopt_def Dataset_spec_def Collection_spec_def
  NestedScraper_def ROOT_def Dataset_fetch_def Dataset_hash_def Dataset_move_here_def
  Item_parent_def Itemslist_contains_def move_up_def move_to_def move_to_top_def
  Itemslist_getitem_def Itemslist_get_def id_at_def move_to_handler_def Scraper_fetch_data_def
  new_result_def Result_init_def ResultSet_append_def Dataset_dimensions_def
  Scraper_fetch_dimensions_def Dimension_init_def attach_def no_Datatype_def resolve_one_def
  Dimensionslist_contains_def Dimensionslist_getitem_def Dimensionslist_get_def dim_id_at_def
  dim_at_def DimensionValue_init_def Dimension_allowed_values_def update_dim_def
  dimensionvalues_append_def list_append_def list_getitem_def Let_def

lemma Scraper_listed_eval:
  "Scraper_listed =
     \<lparr> heap_items =
         [ (Item_init Collection ROOT None JNull)\<lparr>items_attr := Some [1, 2, 3]\<rparr>,
           (Item_init Dataset ''Dataset_1'' None JNull)\<lparr>parent_attr := Some 0\<rparr>,
           (Item_init Dataset ''Dataset_2'' None JNull)\<lparr>parent_attr := Some 0\<rparr>,
           (Item_init Dataset ''Dataset_3'' None JNull)\<lparr>parent_attr := Some 0\<rparr> ],
       heap_dimensions = [], heap_dicts = [[]], heap_results = [], heap_resultsets = [],
       current_item = 0, collection_path = [0],
       Dataset_data = Map.empty, Result_dimensionvalues = [],
       trace = [HookInit, Call_fetch_itemslist 0] \<rparr>"
  by (simp add: Scraper_listed_def model_defs)

section \<open>Lookup by an id that no element has\<close>

text \<open>
  C5. The claim: a lookup \<^verbatim>\<open>get(key)\<close> / \<^verbatim>\<open>collection[key]\<close> with a string that is
  no element's id fails with \<^verbatim>\<open>NoSuchItem\<close> and with no other exception. The code:
  \<^verbatim>\<open>next\<close> on the exhausted filter raises \<^verbatim>\<open>StopIteration\<close>, which is no
  \<^verbatim>\<open>IndexError\<close>, so the handler that would raise \<^verbatim>\<open>NoSuchItem\<close> is never entered.
  On the Itemslist of the test scraper's root and on a Dimensionslist of two dimension
  values, the lookup of a missing id ends in \<^verbatim>\<open>StopIteration\<close>; \<^verbatim>\<open>move_to\<close>, whose
  handler names \<^verbatim>\<open>StopIteration\<close>, turns the same failure into \<^verbatim>\<open>NoSuchItem\<close>.
\<close>

theorem missing_id_raises_StopIteration:
  "Itemslist_get (id_at Scraper_listed) [1, 2, 3] (KStr ''non_existing_item'') = Inl StopIteration
   \<and> Itemslist_getitem (id_at Scraper_listed) [1, 2, 3] (KStr ''non_existing_item'') = Inl StopIteration
   \<and> Dimensionslist_get dim_id
        [\<lparr> dim_id = ''date'', dim_label = ''date'', dim_datatype = None,
            allowed_values_attr = (None :: allowed option), dim_dataset = None, dim_scraper = False \<rparr>]
        (KStr ''municipality'') = Inl StopIteration
   \<and> fst (move_to Scraper Scraper_listed (KStr ''non_existing_item'')) = Inl NoSuchItem"
  by (simp add: Scraper_listed_eval) (simp add: model_defs)

section \<open>Moving up from the root\<close>

text \<open>
  C9. Calling \<^verbatim>\<open>move_up\<close> while the path stack has length one changes nothing but
  the trace of fired hooks (\<open>up\<close>, then \<open>top\<close>): the current item, the path stack and
  every store stay as they are, so a second call finds the same cursor again. The
  function has no statement that can raise; it returns the state.
\<close>

theorem move_up_at_root_is_noop:
  assumes "length (collection_path st) = 1"
  shows "move_up st = st\<lparr>trace := trace st @ [HookUp, HookTop]\<rparr>
         \<and> current_item (move_up st) = current_item st
         \<and> collection_path (move_up st) = collection_path st
         \<and> current_item (move_up (move_up st)) = current_item st
         \<and> collection_path (move_up (move_up st)) = collection_path st"
  using assms by (simp add: move_up_def log_def)

theorem move_up_at_root_is_noop_witness:
  "length (collection_path (BaseScraper_init :: allowed state)) = 1
   \<and> current_item (move_up (BaseScraper_init :: allowed state)) = 0
   \<and> collection_path (move_up (BaseScraper_init :: allowed state)) = [0]
   \<and> collection_path (move_up (move_up (BaseScraper_init :: allowed state))) = [0]"
proof -
  have h: "length (collection_path (BaseScraper_init :: allowed state)) = 1"
    by (simp add: BaseScraper_init_def)
  have c: "current_item (BaseScraper_init :: allowed state) = 0"
    and p: "collection_path (BaseScraper_init :: allowed state) = [0]"
    by (simp_all add: BaseScraper_init_def)
  from move_up_at_root_is_noop [OF h, THEN conjunct2] show ?thesis
    using h by (simp add: c p)
qed

section \<open>Lazy materialization keeps the store well formed\<close>

lemma wf_init: "well_formed BaseScraper_init"
  by (auto simp: well_formed_def heap_ok_def path_invariant_def is_root_def BaseScraper_init_def Item_init_def item_at_def)

lemma same_links_refl: "same_links st st"
  by (simp add: same_links_def)

lemma same_links_trans: "same_links a b \<Longrightarrow> same_links b c \<Longrightarrow> same_links a c"
  by (auto simp: same_links_def)

lemma chain_same_links:
  "same_links st st' \<Longrightarrow> list_all (\<lambda>x. x < length (heap_items st)) p \<Longrightarrow> chain st p \<Longrightarrow> chain st' p"
  by (induction st p rule: chain.induct) (auto simp: same_links_def)

lemma chain_snoc: "chain st (p @ [a]) = (chain st p \<and> (p = [] \<or> parent_attr (item_at st a) = Some (last p)))"
  by (induction st p rule: chain.induct) auto

lemma chain_butlast: "chain st p \<Longrightarrow> chain st (butlast p)"
  by (induction st p rule: chain.induct) auto

lemma adopt_heap:
  assumes "c < length (heap_items st)"
  shows "heap_items (adopt cb c sp st) =
     (heap_items st)[c := (heap_items st ! c)\<lparr>items_attr := Some (the (items_attr (heap_items st ! c)) @ [length (heap_items st)])\<rparr>]
      @ [(if spec_class sp = Dataset \<and> spec_dialect sp = None
          then (Item_init (spec_class sp) (spec_id sp) (spec_label sp) (spec_blob sp))\<lparr>dialect := scraper_dialect cb, parent_attr := Some c\<rparr>
          else (Item_init (spec_class sp) (spec_id sp) (spec_label sp) (spec_blob sp))\<lparr>dialect := spec_dialect sp, parent_attr := Some c\<rparr>)]"
  using assms by (auto simp: adopt_def update_item_def Let_def Item_init_def nth_append list_update_append)

lemma adopt_nav: "collection_path (adopt cb c sp st) = collection_path st" "current_item (adopt cb c sp st) = current_item st"
  by (simp_all add: adopt_def update_item_def Let_def)


lemma adopt_length: "length (heap_items (adopt cb c sp st)) = Suc (length (heap_items st))"
  by (simp add: adopt_def update_item_def Let_def)

lemma adopt_parent:
  assumes "c < length (heap_items st)" "x \<le> length (heap_items st)"
  shows "parent_attr (item_at (adopt cb c sp st) x) =
           (if x = length (heap_items st) then Some c else parent_attr (item_at st x))"
  using assms by (auto simp: adopt_heap item_at_def nth_append nth_list_update)

lemma adopt_class:
  assumes "c < length (heap_items st)" "x \<le> length (heap_items st)"
  shows "item_class (item_at (adopt cb c sp st) x) =
           (if x = length (heap_items st) then spec_class sp else item_class (item_at st x))"
  using assms by (auto simp: adopt_heap item_at_def nth_append nth_list_update Item_init_def)

lemma adopt_id:
  assumes "c < length (heap_items st)" "x \<le> length (heap_items st)"
  shows "item_id (item_at (adopt cb c sp st) x) =
           (if x = length (heap_items st) then spec_id sp else item_id (item_at st x))"
  using assms by (auto simp: adopt_heap item_at_def nth_append nth_list_update Item_init_def)

lemma adopt_items:
  assumes "c < length (heap_items st)" "x \<le> length (heap_items st)"
  shows "items_attr (item_at (adopt cb c sp st) x) =
           (if x = length (heap_items st) then None
            else if x = c then Some (the (items_attr (item_at st c)) @ [length (heap_items st)])
            else items_attr (item_at st x))"
  using assms by (auto simp: adopt_heap item_at_def nth_append nth_list_update Item_init_def)

lemma heap_ok_adopt:
  assumes ok: "heap_ok st" and c: "c < length (heap_items st)"
    and cls: "item_class (item_at st c) = Collection"
    and its: "items_attr (item_at st c) = Some xs"
  shows "heap_ok (adopt cb c sp st)"
proof -
  let ?n = "length (heap_items st)"
  let ?st = "adopt cb c sp st"
  have len: "length (heap_items ?st) = Suc ?n" by (rule adopt_length)
  have h1: "\<And>c' ys x. c' < ?n \<Longrightarrow> items_attr (item_at st c') = Some ys \<Longrightarrow> x \<in> set ys \<Longrightarrow>
              x < ?n \<and> parent_attr (item_at st x) = Some c'"
    using ok unfolding heap_ok_def by blast
  have h2: "\<And>x p. x < ?n \<Longrightarrow> parent_attr (item_at st x) = Some p \<Longrightarrow>
              p < ?n \<and> item_class (item_at st p) = Collection \<and>
              (\<exists>ys. items_attr (item_at st p) = Some ys \<and> x \<in> set ys)"
    using ok unfolding heap_ok_def by blast
  have h3: "\<And>x. x < ?n \<Longrightarrow> parent_attr (item_at st x) = None \<Longrightarrow> x = 0"
    using ok unfolding heap_ok_def by blast
  have g0: "heap_items ?st \<noteq> []" using len by auto
  have g1: "x < Suc ?n \<and> parent_attr (item_at ?st x) = Some c'"
    if "c' < Suc ?n" "items_attr (item_at ?st c') = Some ys" "x \<in> set ys" for c' ys x
  proof -
    from that(2) have c'n: "c' \<noteq> ?n" using c that(1) by (auto simp: adopt_items)
    hence c'lt: "c' < ?n" using that(1) by simp
    show ?thesis
    proof (cases "c' = c")
      case True
      with that(2) c its have ys: "ys = xs @ [?n]" by (auto simp: adopt_items)
      show ?thesis
      proof (cases "x = ?n")
        case True
        then show ?thesis using c \<open>c' = c\<close> by (simp add: adopt_parent)
      next
        case False
        with ys that(3) have "x \<in> set xs" by auto
        from h1[OF c its this] False show ?thesis using c \<open>c' = c\<close> by (simp add: adopt_parent)
      qed
    next
      case False
      with that(2) c c'lt have "items_attr (item_at st c') = Some ys" by (auto simp: adopt_items)
      from h1[OF c'lt this that(3)] show ?thesis using c by (auto simp: adopt_parent)
    qed
  qed
  have g2: "p < Suc ?n \<and> item_class (item_at ?st p) = Collection \<and>
            (\<exists>ys. items_attr (item_at ?st p) = Some ys \<and> x \<in> set ys)"
    if "x < Suc ?n" "parent_attr (item_at ?st x) = Some p" for x p
  proof (cases "x = ?n")
    case True
    with that(2) c have "p = c" by (simp add: adopt_parent)
    then show ?thesis using c cls its True by (simp add: adopt_class adopt_items)
  next
    case False
    hence xlt: "x < ?n" using that(1) by simp
    with that(2) c have "parent_attr (item_at st x) = Some p" by (simp add: adopt_parent)
    from h2[OF xlt this] obtain ys where p: "p < ?n" "item_class (item_at st p) = Collection"
      "items_attr (item_at st p) = Some ys" "x \<in> set ys" by blast
    then show ?thesis using c by (auto simp: adopt_class adopt_items)
  qed
  have g3: "x = 0" if "x < Suc ?n" "parent_attr (item_at ?st x) = None" for x
  proof -
    from that c have "x \<noteq> ?n" by (auto simp: adopt_parent)
    with that c have "x < ?n" "parent_attr (item_at st x) = None" by (auto simp: adopt_parent)
    then show ?thesis by (rule h3)
  qed
  show ?thesis unfolding heap_ok_def len using g0 g1 g2 g3 by blast
qed

lemma nth_update_field:
  "(xs[c := f (xs ! c)]) ! x = (if x = c \<and> c < length xs then f (xs ! c) else xs ! x)"
  by (cases "c < length xs") (auto simp: nth_list_update list_update_beyond)

lemma adopt_same_links: "c < length (heap_items st) \<Longrightarrow> same_links st (adopt cb c sp st)"
  by (simp add: same_links_def adopt_length adopt_parent adopt_class adopt_id)

lemma fold_adopt:
  assumes "heap_ok st" "c < length (heap_items st)" "item_class (item_at st c) = Collection"
    "items_attr (item_at st c) \<noteq> None"
  shows "heap_ok (fold (adopt cb c) specs st) \<and> same_links st (fold (adopt cb c) specs st)
         \<and> collection_path (fold (adopt cb c) specs st) = collection_path st
         \<and> current_item (fold (adopt cb c) specs st) = current_item st
         \<and> items_attr (item_at (fold (adopt cb c) specs st) c) \<noteq> None"
  using assms
proof (induction specs arbitrary: st)
  case Nil
  then show ?case by (simp add: same_links_refl)
next
  case (Cons sp specs)
  let ?st = "adopt cb c sp st"
  from Cons.prems obtain xs where xs: "items_attr (item_at st c) = Some xs" by auto
  have a1: "heap_ok ?st" using Cons.prems(1-3) xs by (rule heap_ok_adopt)
  have a2: "c < length (heap_items ?st)" using Cons.prems(2) by (simp add: adopt_length)
  have a3: "item_class (item_at ?st c) = Collection"
    using Cons.prems(2,3) by (simp add: adopt_class)
  have a4: "items_attr (item_at ?st c) \<noteq> None" using Cons.prems(2) by (simp add: adopt_items)
  have a5: "same_links st ?st" using Cons.prems(2) by (rule adopt_same_links)
  note ih = Cons.IH[OF a1 a2 a3 a4]
  have "same_links st (fold (adopt cb c) specs ?st)"
    using a5 ih by (blast intro: same_links_trans)
  with ih show ?case by (simp add: adopt_nav)
qed

lemma heap_ok_log: "heap_ok (log e st) = heap_ok st"
  by (simp add: heap_ok_def log_def item_at_def)

lemma heap_ok_memo:
  assumes "heap_ok st" "c < length (heap_items st)" "items_attr (item_at st c) = None"
  shows "heap_ok (update_item c (\<lambda>it. it\<lparr>items_attr := Some []\<rparr>) st)"
proof -
  let ?st = "update_item c (\<lambda>it. it\<lparr>items_attr := Some []\<rparr>) st"
  let ?n = "length (heap_items st)"
  have len: "length (heap_items ?st) = ?n" by (simp add: update_item_def)
  have par: "\<And>x. parent_attr (item_at ?st x) = parent_attr (item_at st x)"
    by (simp add: update_item_def item_at_def nth_update_field)
  have cls: "\<And>x. item_class (item_at ?st x) = item_class (item_at st x)"
    by (simp add: update_item_def item_at_def nth_update_field)
  have itc: "items_attr (item_at ?st c) = Some []"
    using assms(2) by (simp add: update_item_def item_at_def)
  have ito: "\<And>x. x \<noteq> c \<Longrightarrow> items_attr (item_at ?st x) = items_attr (item_at st x)"
    by (simp add: update_item_def item_at_def)
  have h1: "\<And>c' ys x. c' < ?n \<Longrightarrow> items_attr (item_at st c') = Some ys \<Longrightarrow>
              x \<in> set ys \<Longrightarrow> x < ?n \<and> parent_attr (item_at st x) = Some c'"
    using assms(1) unfolding heap_ok_def by blast
  have h2: "\<And>x p. x < ?n \<Longrightarrow> parent_attr (item_at st x) = Some p \<Longrightarrow>
              p < ?n \<and> item_class (item_at st p) = Collection \<and>
              (\<exists>ys. items_attr (item_at st p) = Some ys \<and> x \<in> set ys)"
    using assms(1) unfolding heap_ok_def by blast
  have h3: "\<And>x. x < ?n \<Longrightarrow> parent_attr (item_at st x) = None \<Longrightarrow> x = 0"
    using assms(1) unfolding heap_ok_def by blast
  have g0: "heap_items ?st \<noteq> []" using assms(2) len by auto
  have g1: "x < ?n \<and> parent_attr (item_at ?st x) = Some c'"
    if "c' < ?n" "items_attr (item_at ?st c') = Some ys" "x \<in> set ys" for c' ys x
  proof (cases "c' = c")
    case True
    with that itc show ?thesis by simp
  next
    case False
    with that(2) have "items_attr (item_at st c') = Some ys" by (simp add: ito)
    from h1[OF that(1) this that(3)] show ?thesis by (simp add: par)
  qed
  have g2: "p < ?n \<and> item_class (item_at ?st p) = Collection \<and>
            (\<exists>ys. items_attr (item_at ?st p) = Some ys \<and> x \<in> set ys)"
    if "x < ?n" "parent_attr (item_at ?st x) = Some p" for x p
  proof -
    from that(2) have "parent_attr (item_at st x) = Some p" by (simp add: par)
    from h2[OF that(1) this] obtain ys where p: "p < ?n"
      "item_class (item_at st p) = Collection" "items_attr (item_at st p) = Some ys" "x \<in> set ys"
      by blast
    with assms(3) have "p \<noteq> c" by auto
    with p show ?thesis by (simp add: cls ito)
  qed
  have g3: "x = 0" if "x < ?n" "parent_attr (item_at ?st x) = None" for x
    using that h3 by (simp add: par)
  show ?thesis
    unfolding heap_ok_def len
  proof (intro conjI allI impI ballI)
    show "heap_items ?st \<noteq> []" by (rule g0)
  next
    fix c' ys x assume "c' < ?n \<and> items_attr (item_at ?st c') = Some ys" "x \<in> set ys"
    then show "x < ?n" "parent_attr (item_at ?st x) = Some c'" using g1 by blast+
  next
    fix x p assume a: "x < ?n \<and> parent_attr (item_at ?st x) = Some p"
    then show "p < ?n" "item_class (item_at ?st p) = Collection"
      "\<exists>ys. items_attr (item_at ?st p) = Some ys \<and> x \<in> set ys" using g2 by blast+
  next
    fix x assume "x < ?n \<and> parent_attr (item_at ?st x) = None"
    then show "x = 0" using g3 by blast
  qed
qed

lemma Collection_items_wf:
  assumes "heap_ok st" "c < length (heap_items st)" "item_class (item_at st c) = Collection"
    and r: "Collection_items cb st c = (r, st')"
  shows "heap_ok st' \<and> same_links st st' \<and> collection_path st' = collection_path st
         \<and> current_item st' = current_item st
         \<and> (\<forall>xs. r = Inr xs \<longrightarrow> items_attr (item_at st' c) = Some xs)"
proof (cases "items_attr (item_at st c)")
  case (Some xs)
  with r show ?thesis using assms(1) by (auto simp: Collection_items_def same_links_refl)
next
  case None
  let ?st1 = "update_item c (\<lambda>it. it\<lparr>items_attr := Some []\<rparr>) st"
  let ?st2 = "log (Call_fetch_itemslist c) ?st1"
  obtain specs err where f: "fetch_itemslist cb ?st2 c = (specs, err)" by (cases "fetch_itemslist cb ?st2 c")
  let ?st3 = "fold (adopt cb c) specs ?st2"
  have st': "st' = ?st3" and rr: "r = (case err of Some e \<Rightarrow> Inl e | None \<Rightarrow> Inr (the (items_attr (item_at ?st3 c))))"
    using r None f by (auto simp: Collection_items_def Let_def split: option.splits)
  have b1: "heap_ok ?st2" using heap_ok_memo[OF assms(1,2) None] by (simp add: heap_ok_log)
  have b2: "c < length (heap_items ?st2)" using assms(2) by (simp add: log_def update_item_def)
  have b3: "item_class (item_at ?st2 c) = Collection"
    using assms(2,3) by (simp add: log_def update_item_def item_at_def)
  have b4: "items_attr (item_at ?st2 c) \<noteq> None"
    using assms(2) by (simp add: log_def update_item_def item_at_def)
  have b5: "same_links st ?st2"
    by (simp add: same_links_def log_def update_item_def item_at_def nth_update_field)
  note fa = fold_adopt[OF b1 b2 b3 b4, of cb specs]
  have sl: "same_links st ?st3" using b5 fa by (blast intro: same_links_trans)
  have nav: "collection_path ?st3 = collection_path st" "current_item ?st3 = current_item st"
    using fa by (simp_all add: log_def update_item_def)
  have res: "\<forall>xs. r = Inr xs \<longrightarrow> items_attr (item_at ?st3 c) = Some xs"
    using fa unfolding rr by (auto split: option.splits)
  show ?thesis unfolding st' using fa sl nav res by blast
qed

lemma Itemslist_getitem_mem: "Itemslist_getitem ids xs k = Inr a \<Longrightarrow> a \<in> set xs"
proof (cases k)
  case (KStr s)
  assume "Itemslist_getitem ids xs k = Inr a"
  with KStr have "filter (\<lambda>x. ids x = s) xs \<noteq> [] \<and> a = hd (filter (\<lambda>x. ids x = s) xs)"
    by (auto simp: Itemslist_getitem_def split: list.splits if_splits)
  then have "a \<in> set (filter (\<lambda>x. ids x = s) xs)" using hd_in_set by metis
  then show ?thesis by simp
next
  case (KItem b)
  assume "Itemslist_getitem ids xs k = Inr a"
  with KItem have "filter (\<lambda>x. x = b) xs \<noteq> [] \<and> a = hd (filter (\<lambda>x. x = b) xs)"
    by (auto simp: Itemslist_getitem_def split: list.splits if_splits)
  then have "a \<in> set (filter (\<lambda>x. x = b) xs)" using hd_in_set by metis
  then show ?thesis by auto
next
  case (KIdx i)
  assume "Itemslist_getitem ids xs k = Inr a"
  with KIdx show ?thesis
    by (auto simp: Itemslist_getitem_def list_getitem_def split: if_splits)
qed

lemma heap_ok_upd [simp]:
  "heap_ok (trace_update f st) = heap_ok st"
  "heap_ok (current_item_update g st) = heap_ok st"
  "heap_ok (collection_path_update h st) = heap_ok st"
  by (simp_all add: heap_ok_def item_at_def)

lemma chain_trace [simp]: "chain (trace_update f st) p = chain st p"
  by (induction st p rule: chain.induct) (simp_all add: item_at_def)

lemma chain_current [simp]: "chain (current_item_update g st) p = chain st p"
  by (induction st p rule: chain.induct) (simp_all add: item_at_def)

lemma chain_path [simp]: "chain (collection_path_update h st) p = chain st p"
  by (induction st p rule: chain.induct) (simp_all add: item_at_def)

lemma is_root_upd [simp]:
  "is_root (trace_update f st) r = is_root st r"
  "is_root (current_item_update g st) r = is_root st r"
  "is_root (collection_path_update h st) r = is_root st r"
  by (simp_all add: is_root_def item_at_def)

lemma wf_current:
  assumes "well_formed st"
  shows "current_item st < length (heap_items st)"
proof -
  from assms have ne: "collection_path st \<noteq> []" and l: "last (collection_path st) = current_item st"
    by (auto simp: well_formed_def path_invariant_def split: list.splits)
  from assms have "list_all (\<lambda>x. x < length (heap_items st)) (collection_path st)"
    by (simp add: well_formed_def)
  with ne have "last (collection_path st) < length (heap_items st)"
    by (simp add: list_all_iff)
  with l show ?thesis by simp
qed

lemma wf_frame:
  assumes "well_formed st" "heap_ok st'" "same_links st st'"
    "collection_path st' = collection_path st" "current_item st' = current_item st"
  shows "well_formed st'"
proof -
  from assms(1) obtain r rest where p: "collection_path st = r # rest" and root: "is_root st r"
    and ch: "chain st (r # rest)" and l: "last (r # rest) = current_item st"
    by (auto simp: well_formed_def path_invariant_def split: list.splits)
  from assms(1) have v: "list_all (\<lambda>x. x < length (heap_items st)) (collection_path st)"
    by (simp add: well_formed_def)
  have len: "length (heap_items st) \<le> length (heap_items st')"
    using assms(3) by (simp add: same_links_def)
  have v': "list_all (\<lambda>x. x < length (heap_items st')) (collection_path st)"
    using v len by (auto simp: list_all_iff)
  have r0: "r < length (heap_items st)" using v p by simp
  have root': "is_root st' r" using root r0 assms(3) by (auto simp: is_root_def same_links_def)
  have ch': "chain st' (r # rest)" using chain_same_links[OF assms(3)] v ch p by simp
  show ?thesis
    unfolding well_formed_def path_invariant_def using assms(2,4,5) p root' ch' l v' by simp
qed

lemma wf_Item_items:
  assumes "well_formed st" "a < length (heap_items st)" "Item_items cb st a = (r, st')"
  shows "well_formed st' \<and> same_links st st' \<and> collection_path st' = collection_path st
         \<and> current_item st' = current_item st
         \<and> (\<forall>xs. r = Inr (Some xs) \<longrightarrow> items_attr (item_at st' a) = Some xs)"
proof (cases "item_class (item_at st a)")
  case Dataset
  with assms show ?thesis by (auto simp: Item_items_def same_links_refl)
next
  case Collection
  obtain r0 st0 where c: "Collection_items cb st a = (r0, st0)" by (cases "Collection_items cb st a")
  from assms(1) have ok: "heap_ok st" by (simp add: well_formed_def)
  note ci = Collection_items_wf[OF ok assms(2) Collection c]
  from assms(3) Collection c have st': "st' = st0"
    and r: "r = (case r0 of Inl e \<Rightarrow> Inl e | Inr xs \<Rightarrow> Inr (Some xs))"
    by (auto simp: Item_items_def split: sum.splits)
  have "well_formed st0" using wf_frame[OF assms(1)] ci by blast
  moreover have "\<forall>xs. r = Inr (Some xs) \<longrightarrow> items_attr (item_at st0 a) = Some xs"
    using ci unfolding r by (auto split: sum.splits)
  ultimately show ?thesis unfolding st' using ci by blast
qed

lemma wf_log: "well_formed (log e st) = well_formed st"
  by (simp add: well_formed_def path_invariant_def log_def split: list.splits)

lemma wf_move_to:
  assumes "well_formed st"
  shows "well_formed (snd (move_to cb st k))"
proof -
  obtain r st1 where it: "Item_items cb st (current_item st) = (r, st1)"
    by (cases "Item_items cb st (current_item st)")
  note ii = wf_Item_items[OF assms wf_current[OF assms] it]
  hence wf1: "well_formed st1" by blast
  show ?thesis
  proof (cases r)
    case (Inl e)
    with it wf1 show ?thesis by (simp add: move_to_def BaseScraper_items_def)
  next
    case (Inr o1)
    show ?thesis
    proof (cases o1)
      case None
      with Inr it wf1 show ?thesis by (simp add: move_to_def BaseScraper_items_def)
    next
      case (Some xs)
      show ?thesis
      proof (cases "Itemslist_getitem (id_at st1) xs k")
        case (Inl e)
        with Some Inr it wf1 show ?thesis by (simp add: move_to_def BaseScraper_items_def)
      next
        case (Inr a)
        let ?st2 = "st1\<lparr>current_item := a, collection_path := collection_path st1 @ [a]\<rparr>"
        have res: "snd (move_to cb st k) = log HookSelect ?st2"
          using it \<open>r = Inr o1\<close> Some Inr by (simp add: move_to_def BaseScraper_items_def)
        have mem: "a \<in> set xs" using Inr by (rule Itemslist_getitem_mem)
        have cur1: "current_item st1 = current_item st" using ii by blast
        have its: "items_attr (item_at st1 (current_item st1)) = Some xs"
          using ii \<open>r = Inr o1\<close> Some cur1 by simp
        from wf1 have ok1: "heap_ok st1" by (simp add: well_formed_def)
        have c1: "current_item st1 < length (heap_items st1)" by (rule wf_current[OF wf1])
        from ok1 c1 its mem have a: "a < length (heap_items st1)"
          "parent_attr (item_at st1 a) = Some (current_item st1)"
          unfolding heap_ok_def by blast+
        from wf1 obtain r0 rest where p: "collection_path st1 = r0 # rest" and root: "is_root st1 r0"
          and ch: "chain st1 (r0 # rest)" and l: "last (r0 # rest) = current_item st1"
          by (auto simp: well_formed_def path_invariant_def split: list.splits)
        from wf1 have v: "list_all (\<lambda>x. x < length (heap_items st1)) (collection_path st1)"
          by (simp add: well_formed_def)
        have ch2: "chain st1 ((r0 # rest) @ [a])"
          using ch a(2) l by (simp only: chain_snoc) simp
        have "well_formed ?st2"
          unfolding well_formed_def path_invariant_def
          using ok1 p root ch2 v a(1)
          by simp
        then show ?thesis unfolding res by (simp add: wf_log)
      qed
    qed
  qed
qed

lemma wf_move_up:
  assumes "well_formed st"
  shows "well_formed (move_up st)"
proof (cases "length (collection_path st) > 1")
  case False
  then have "move_up st = (let st2 = log HookUp st in if length (collection_path st2) = 1 then log HookTop st2 else st2)"
    by (simp add: move_up_def)
  then show ?thesis using assms by (simp add: Let_def wf_log)
next
  case True
  let ?p = "butlast (collection_path st)"
  let ?st1 = "st\<lparr>collection_path := ?p, current_item := last ?p\<rparr>"
  from assms obtain r rest where p: "collection_path st = r # rest" and root: "is_root st r"
    and ch: "chain st (r # rest)"
    by (auto simp: well_formed_def path_invariant_def split: list.splits)
  from True p have rest: "rest \<noteq> []" by auto
  hence bl: "?p = r # butlast rest" using p by simp
  from assms have v: "list_all (\<lambda>x. x < length (heap_items st)) (collection_path st)"
    and ok: "heap_ok st" by (simp_all add: well_formed_def)
  have v': "list_all (\<lambda>x. x < length (heap_items st)) ?p"
    using v by (auto simp: list_all_iff dest: in_set_butlastD)
  have ch': "chain st ?p" using chain_butlast[OF ch] p by simp
  have "well_formed ?st1"
    unfolding well_formed_def path_invariant_def
    using ok root ch' v' bl
    by simp
  moreover have "move_up st = (let st2 = log HookUp ?st1 in if length (collection_path st2) = 1 then log HookTop st2 else st2)"
    using True by (simp add: move_up_def Let_def)
  ultimately show ?thesis by (simp add: Let_def wf_log)
qed

lemma wf_move_to_top:
  assumes "well_formed st"
  shows "well_formed (snd (move_to_top st))"
proof -
  from assms obtain r rest where p: "collection_path st = r # rest" and root: "is_root st r"
    by (auto simp: well_formed_def path_invariant_def split: list.splits)
  let ?st1 = "st\<lparr>current_item := r, collection_path := [r]\<rparr>"
  from assms have v: "list_all (\<lambda>x. x < length (heap_items st)) (collection_path st)"
    and ok: "heap_ok st" by (simp_all add: well_formed_def)
  have "well_formed ?st1"
    unfolding well_formed_def path_invariant_def
    using ok root v p
    by simp
  then show ?thesis using p by (simp add: move_to_top_def wf_log)
qed

lemma wf_run_op: "well_formed st \<Longrightarrow> well_formed (run_op cb op st)"
  by (cases op) (simp_all add: wf_move_to wf_move_up wf_move_to_top)

lemma wf_run_ops: "well_formed st \<Longrightarrow> well_formed (fold (run_op cb) ops st)"
  by (induction ops arbitrary: st) (simp_all add: wf_run_op)

section \<open>The path stack under navigation\<close>

text \<open>
  C4. Starting from the state \<^verbatim>\<open>BaseScraper.__init__\<close> builds, after every sequence
  of \<^verbatim>\<open>move_to\<close> (by id, by instance or by index), \<^verbatim>\<open>move_up\<close> and \<^verbatim>\<open>move_to_top\<close>
  calls, each of which may return or raise, with any collaborator that yields newly
  constructed items: the first element of the path stack is the root collection, every
  element is the \<^verbatim>\<open>parent_\<close> of the one after it, and the last element is the current
  item.
\<close>

theorem path_stack_invariant: "path_invariant (fold (run_op cb) ops BaseScraper_init)"
  using wf_run_ops[OF wf_init, of cb ops] by (simp add: well_formed_def)

section \<open>Repositioning the cursor at a dataset\<close>

lemma move_up_heap [simp]: "heap_items (move_up st) = heap_items st"
  by (simp add: move_up_def log_def Let_def)



















section \<open>Cached fetch and the hash of a query\<close>

lemma sort_key_fst_unique:
  fixes xs ys :: "('k::linorder \<times> 'v) list"
  assumes "distinct (map fst xs)" "distinct (map fst ys)" "set xs = set ys"
  shows "sort_key fst xs = sort_key fst ys"
proof -
  let ?A = "sort_key fst xs" and ?B = "sort_key fst ys"
  have dA: "distinct (map fst ?A)" using assms(1) by (simp add: distinct_map)
  have dB: "distinct (map fst ?B)" using assms(2) by (simp add: distinct_map)
  have sA: "sorted (map fst ?A)" and sB: "sorted (map fst ?B)" by simp_all
  have "set (map fst ?A) = set (map fst ?B)" using assms(3) by simp
  from sorted_distinct_set_unique[OF sA dA sB dB this] have m: "map fst ?A = map fst ?B" .
  have "inj_on fst (set ?A \<union> set ?B)" using dA assms(3) by (simp add: distinct_map)
  with m show ?thesis by (simp add: inj_on_map_eq_map)
qed

lemma structurally_equal_sort_keys:
  "structurally_equal q1 q2 \<Longrightarrow> sort_keys q1 = sort_keys q2"
proof (induction rule: structurally_equal.induct)
  case (se_list xs ys)
  then have "list_all2 (\<lambda>x y. sort_keys x = sort_keys y) xs ys"
    by (simp add: list_all2_conv_all_nth)
  then have "map sort_keys xs = map sort_keys ys"
    by (induction rule: list_all2_induct) simp_all
  then show ?case by simp
next
  case (se_dict kvs kvs')
  let ?f = "\<lambda>kv :: string \<times> json. (fst kv, sort_keys (snd kv))"
  have fst_f: "\<And>l. map fst (map ?f l) = map fst l" by (simp add: comp_def)
  have sub: "set (map ?f kvs) \<subseteq> set (map ?f kvs')"
  proof
    fix x assume "x \<in> set (map ?f kvs)"
    then obtain k v where kv: "(k, v) \<in> set kvs" "x = (k, sort_keys v)" by auto
    with se_dict(4) obtain v' where "(k, v') \<in> set kvs'" "sort_keys v = sort_keys v'" by blast
    with kv show "x \<in> set (map ?f kvs')" by force
  qed
  have sup: "set (map ?f kvs') \<subseteq> set (map ?f kvs)"
  proof
    fix x assume "x \<in> set (map ?f kvs')"
    then obtain k v' where kv': "(k, v') \<in> set kvs'" "x = (k, sort_keys v')" by auto
    hence "k \<in> set (map fst kvs)" using se_dict(3) by force
    then obtain v where v: "(k, v) \<in> set kvs" by auto
    with se_dict(4) obtain v'' where v'': "(k, v'') \<in> set kvs'" "sort_keys v = sort_keys v''" by blast
    from se_dict(2) kv'(1) v''(1) have "v'' = v'" by (meson eq_key_imp_eq_value)
    with v'' kv' v show "x \<in> set (map ?f kvs)" by force
  qed
  have d1: "distinct (map fst (map ?f kvs))" using se_dict(1) by (simp only: fst_f)
  have d2: "distinct (map fst (map ?f kvs'))" using se_dict(2) by (simp only: fst_f)
  have eq: "set (map ?f kvs) = set (map ?f kvs')" using sub sup by (rule equalityI)
  have "sort_key fst (map ?f kvs) = sort_key fst (map ?f kvs')"
    using d1 d2 eq by (rule sort_key_fst_unique)
  then show ?case by simp
qed simp_all

lemma structurally_equal_truthy:
  assumes "structurally_equal q1 q2" "q1 \<noteq> q2"
  shows "truthy q1 \<and> truthy q2"
  using assms
proof (cases rule: structurally_equal.cases)
  case (se_list xs ys)
  with assms(2) have "xs \<noteq> ys" by simp
  with se_list(3) have "xs \<noteq> [] \<and> ys \<noteq> []" by (cases xs; cases ys) auto
  with se_list show ?thesis by simp
next
  case (se_dict kvs kvs')
  with assms(2) have "kvs \<noteq> kvs'" by simp
  with se_dict(5) have "kvs \<noteq> [] \<and> kvs' \<noteq> []" by (cases kvs; cases kvs') auto
  with se_dict show ?thesis by simp
qed simp_all

text \<open>The item store only grows.\<close>

lemma len_update_item [simp]: "length (heap_items (update_item a f st)) = length (heap_items st)"
  by (simp add: update_item_def)

lemma heap_log [simp]: "heap_items (log e st) = heap_items st"
  by (simp add: log_def)

lemma heap_update_dim [simp]: "heap_items (update_dim d f st) = heap_items st"
  by (simp add: update_dim_def)

lemma heap_dimensionvalues_append [simp]: "heap_items (dimensionvalues_append dv st) = heap_items st"
  by (simp add: dimensionvalues_append_def)

lemma heap_list_append [simp]: "heap_items (list_append rs val st) = heap_items st"
  by (simp add: list_append_def)

lemma len_attach [simp]: "length (heap_items (attach a d st)) = length (heap_items st)"
  by (simp add: attach_def Let_def)

lemma len_fold_attach [simp]: "length (heap_items (fold (attach a) ds st)) = length (heap_items st)"
  by (induction ds arbitrary: st) simp_all

lemma len_fold_adopt: "length (heap_items (fold (adopt cb c) specs st)) = length (heap_items st) + length specs"
  by (induction specs arbitrary: st) (simp_all add: adopt_length)

lemma len_Collection_items:
  "length (heap_items st) \<le> length (heap_items (snd (Collection_items cb st c)))"
  by (simp add: Collection_items_def Let_def len_fold_adopt split: option.splits prod.splits)

lemma len_Item_items: "length (heap_items st) \<le> length (heap_items (snd (Item_items cb st a)))"
  using len_Collection_items[of st cb a]
  by (auto simp: Item_items_def split: item_class.splits prod.splits sum.splits)

lemma len_move_to: "length (heap_items st) \<le> length (heap_items (snd (move_to cb st k)))"
  using len_Item_items[of st cb "current_item st"]
  by (auto simp: move_to_def BaseScraper_items_def split: prod.splits sum.splits option.splits)

lemma len_move_here: "length (heap_items st) \<le> length (heap_items (snd (Dataset_move_here cb st a)))"
proof (cases "Item_parent st a")
  case (Inl e)
  then show ?thesis by (simp add: Dataset_move_here_def)
next
  case (Inr p)
  obtain r st1 where i: "Item_items cb st p = (r, st1)" by (cases "Item_items cb st p")
  have l1: "length (heap_items st) \<le> length (heap_items st1)"
    using len_Item_items[of st cb p] i by simp
  let ?st2 = "if Itemslist_contains (id_at st1) (the (projr r)) (KItem a) then move_up st1 else st1"
  have l2: "length (heap_items st1) \<le> length (heap_items (snd (move_to cb ?st2 (KStr (id_at ?st2 a)))))"
    using len_move_to[of ?st2 cb "KStr (id_at ?st2 a)"] by (simp split: if_splits)
  show ?thesis
    using Inr i l1 l2
    by (auto simp: Dataset_move_here_def Let_def split: prod.splits sum.splits option.splits)
qed

lemma len_dimensions: "length (heap_items st) \<le> length (heap_items (snd (Dataset_dimensions cb st a)))"
  using len_move_here[of st cb a]
  by (auto simp: Dataset_dimensions_def Let_def split: prod.splits sum.splits option.splits if_splits)

lemma heap_allowed_values [simp]: "heap_items (snd (Dimension_allowed_values cb st d)) = heap_items st"
  by (simp add: Dimension_allowed_values_def Let_def split: option.splits sum.splits)

lemma heap_DimensionValue_init [simp]: "heap_items (snd (DimensionValue_init cb st v d)) = heap_items st"
proof -
  obtain r s where i: "Dimension_allowed_values cb st d = (r, s)"
    by (cases "Dimension_allowed_values cb st d")
  have "heap_items s = heap_items st" using heap_allowed_values[of cb st d] unfolding i by simp
  then show ?thesis using i by (auto simp: DimensionValue_init_def split: sum.splits)
qed

lemma len_resolve_one:
  "length (heap_items st) \<le> length (heap_items (snd (resolve_one cb d dd k v dim st)))"
proof (cases v)
  case (Prebuilt dv)
  then show ?thesis by (simp add: resolve_one_def)
next
  case (Literal x)
  obtain r st1 where i: "Dataset_dimensions cb st d = (r, st1)" by (cases "Dataset_dimensions cb st d")
  have l1: "length (heap_items st) \<le> length (heap_items st1)"
    using len_dimensions[of st cb d] i by simp
  have dv: "\<And>s y z. length (heap_items st1) \<le> length (heap_items s) \<Longrightarrow>
       length (heap_items st) \<le> length (heap_items (snd (DimensionValue_init cb s y z)))"
    using l1 by simp
  have e: "heap_items (st1\<lparr>heap_dimensions := heap_dimensions st1 @ [nd]\<rparr>) = heap_items st1" for nd
    by simp
  show ?thesis
    using Literal i l1
    by (auto simp: resolve_one_def Let_def Dimension_init_def
        split: prod.splits sum.splits option.splits if_splits bool.splits
        dest!: arg_cong[where f = "\<lambda>p. heap_items (snd p)"])
qed

lemma len_resolve_dimensions:
  "length (heap_items st) \<le> length (heap_items (snd (resolve_dimensions cb d dd kvs dim st)))"
proof (induction kvs arbitrary: dim st)
  case Nil
  then show ?case by simp
next
  case (Cons kv kvs)
  obtain r st1 where i: "resolve_one cb d dd (fst kv) (snd kv) dim st = (r, st1)"
    by (cases "resolve_one cb d dd (fst kv) (snd kv) dim st")
  have l1: "length (heap_items st) \<le> length (heap_items st1)"
    using len_resolve_one[of st cb d dd "fst kv" "snd kv" dim] i by simp
  show ?case
  proof (cases r)
    case (Inl e)
    with i l1 show ?thesis by simp
  next
    case (Inr o1)
    show ?thesis
    proof (cases o1)
      case None
      with Inr i l1 show ?thesis by simp
    next
      case (Some dv)
      have "length (heap_items st1) \<le>
            length (heap_items (snd (resolve_dimensions cb d dd kvs (Some dv) (dimensionvalues_append dv st1))))"
        using Cons.IH[of "dimensionvalues_append dv st1" "Some dv"] by simp
      with Some Inr i l1 show ?thesis by simp
    qed
  qed
qed

lemma len_ResultSet_append:
  "length (heap_items st) \<le> length (heap_items (snd (ResultSet_append cb st rs val)))"
proof (cases "rs_dataset (heap_resultsets st ! rs)")
  case None
  then show ?thesis by (simp add: ResultSet_append_def Let_def)
next
  case (Some d)
  let ?st1 = "st\<lparr>heap_results := (heap_results st)
                   [val := (heap_results st ! val)\<lparr>res_resultset := Some rs, res_dataset := Some d\<rparr>]\<rparr>"
  obtain r st2 where i: "Dataset_dimensions cb ?st1 d = (r, st2)"
    by (cases "Dataset_dimensions cb ?st1 d")
  have l1: "length (heap_items st) \<le> length (heap_items st2)"
    using len_dimensions[of ?st1 cb d] i by simp
  show ?thesis
  proof (cases r)
    case (Inl e)
    with Some i l1 show ?thesis by (simp add: ResultSet_append_def Let_def)
  next
    case (Inr dd)
    let ?kvs = "heap_dicts st2 ! raw_dimensions (heap_results st2 ! val)"
    obtain r3 st3 where j: "resolve_dimensions cb d dd ?kvs None st2 = (r3, st3)"
      by (cases "resolve_dimensions cb d dd ?kvs None st2")
    have l2: "length (heap_items st2) \<le> length (heap_items st3)"
      using len_resolve_dimensions[of st2 cb d dd ?kvs None] j by simp
    from Some i Inr j l1 l2 show ?thesis
      by (cases r3) (simp_all add: ResultSet_append_def Let_def)
  qed
qed

lemma heap_new_result [simp]: "heap_items (snd (new_result sp st)) = heap_items st"
  by (simp add: new_result_def split: option.splits)

lemma len_append_all:
  "length (heap_items st) \<le> length (heap_items (snd (append_all cb rs sps st)))"
proof (induction sps arbitrary: st)
  case Nil
  then show ?case by simp
next
  case (Cons sp sps)
  obtain r st1 where n: "new_result sp st = (r, st1)" by (cases "new_result sp st")
  have l0: "heap_items st1 = heap_items st" using heap_new_result[of sp st] n by simp
  obtain e st2 where a: "ResultSet_append cb st1 rs r = (e, st2)"
    by (cases "ResultSet_append cb st1 rs r")
  have l1: "length (heap_items st) \<le> length (heap_items st2)"
    using len_ResultSet_append[of st1 cb rs r] a l0 by simp
  show ?case
  proof (cases e)
    case (Inl x)
    with n a l1 show ?thesis by simp
  next
    case (Inr u)
    with n a l1 Cons.IH[of st2] show ?thesis by simp
  qed
qed

text \<open>A successful fetch leaves the result set in the cache, under the hash of its
  query, and keeps the dataset in the store.\<close>

lemma fetch_caches:
  assumes a: "a < length (heap_items st)" and q: "truthy q"
    and f: "Dataset_fetch md5 dumps cb st a q = (Inr rs, st')"
  shows "Dataset_data st' (Dataset_hash md5 dumps q) = Some rs \<and> a < length (heap_items st')"
proof -
  let ?st1 = "update_item a (\<lambda>it. it\<lparr>query := q\<rparr>) st"
  let ?h = "Dataset_hash md5 dumps q"
  have q1: "query (item_at ?st1 a) = q" using a by (simp add: update_item_def item_at_def)
  have a1: "a < length (heap_items ?st1)" using a by simp
  show ?thesis
  proof (cases "Dataset_data ?st1 ?h")
    case (Some rs0)
    with f q q1 a1 show ?thesis by (simp add: Dataset_fetch_def Let_def)
  next
    case None
    let ?mv = "if current_item ?st1 \<noteq> a then Dataset_move_here cb ?st1 a else (Inr (), ?st1)"
    obtain r2 st2 where m: "?mv = (r2, st2)" by (cases ?mv)
    have l2: "length (heap_items ?st1) \<le> length (heap_items st2)"
    proof (cases "current_item ?st1 \<noteq> a")
      case True
      with m have "Dataset_move_here cb ?st1 a = (r2, st2)" by simp
      with len_move_here[of ?st1 cb a] show ?thesis by simp
    next
      case False
      with m have "st2 = ?st1" by simp
      then show ?thesis by simp
    qed
    from f q q1 None m obtain u where r2: "r2 = Inr u"
      by (cases r2) (simp_all add: Dataset_fetch_def Let_def)
    let ?rs = "length (heap_resultsets st2)"
    let ?st3 = "st2\<lparr>heap_resultsets := heap_resultsets st2 @
                 [\<lparr> rs_list = [], rs_dialect = dialect (item_at st2 a), rs_dataset = Some a \<rparr>]\<rparr>"
    let ?st4 = "log (Call_fetch_data a (query (item_at ?st3 a))) ?st3"
    obtain rows err where d: "fetch_data cb ?st4 a (query (item_at ?st4 a)) = (rows, err)"
      by (cases "fetch_data cb ?st4 a (query (item_at ?st4 a))")
    obtain r5 st5 where ap: "append_all cb ?rs rows ?st4 = (r5, st5)"
      by (cases "append_all cb ?rs rows ?st4")
    have l5: "length (heap_items st2) \<le> length (heap_items st5)"
      using len_append_all[of ?st4 cb ?rs rows] ap by simp
    from f q q1 None m r2 d ap have res: "rs = ?rs \<and> st' = st5\<lparr>Dataset_data := (Dataset_data st5)(?h \<mapsto> ?rs)\<rparr>"
      by (cases r5; cases err) (simp_all add: Dataset_fetch_def Let_def)
    with a1 l2 l5 show ?thesis by simp
  qed
qed

lemma fetch_hit:
  assumes a: "a < length (heap_items st)" and q: "truthy q"
    and c: "Dataset_data st (Dataset_hash md5 dumps q) = Some rs"
  shows "Dataset_fetch md5 dumps cb st a q = (Inr rs, update_item a (\<lambda>it. it\<lparr>query := q\<rparr>) st)"
proof -
  let ?st1 = "update_item a (\<lambda>it. it\<lparr>query := q\<rparr>) st"
  have q1: "query (item_at ?st1 a) = q" using a by (simp add: update_item_def item_at_def)
  have "Dataset_data ?st1 = Dataset_data st" by (simp add: update_item_def)
  with c q q1 show ?thesis by (simp add: Dataset_fetch_def Let_def)
qed

section \<open>What an append leaves untouched, and what it attaches\<close>

lemma sr_refl [simp]: "same_results st st"
  by (simp add: same_results_def)

lemma sr_trans: "same_results a b \<Longrightarrow> same_results b c \<Longrightarrow> same_results a c"
  by (simp add: same_results_def)

lemma sr_update_item [simp]: "same_results st (update_item a f st)"
  by (simp add: same_results_def update_item_def)

lemma sr_log [simp]: "same_results st (log e st)"
  by (simp add: same_results_def log_def)

lemma sr_update_dim [simp]: "same_results st (update_dim d f st)"
  by (simp add: same_results_def update_dim_def)

lemma sr_adopt: "same_results st (adopt cb c sp st)"
  by (simp add: same_results_def adopt_def update_item_def Let_def)

lemma sr_fold_adopt: "same_results st (fold (adopt cb c) specs st)"
proof (induction specs arbitrary: st)
  case Nil
  show ?case by simp
next
  case (Cons sp specs)
  from sr_trans[OF sr_adopt[of st cb c sp] Cons[of "adopt cb c sp st"]] show ?case by simp
qed

lemma sr_attach: "same_results st (attach a d st)"
  by (simp add: same_results_def attach_def update_item_def Let_def)

lemma sr_fold_attach: "same_results st (fold (attach a) ds st)"
proof (induction ds arbitrary: st)
  case Nil
  show ?case by simp
next
  case (Cons d ds)
  from sr_trans[OF sr_attach[of st a d] Cons[of "attach a d st"]] show ?case by simp
qed

lemma sr_Collection_items: "same_results st (snd (Collection_items cb st c))"
proof (cases "items_attr (item_at st c)")
  case (Some xs)
  then show ?thesis by (simp add: Collection_items_def)
next
  case None
  let ?st2 = "log (Call_fetch_itemslist c) (update_item c (\<lambda>it. it\<lparr>items_attr := Some []\<rparr>) st)"
  have a: "same_results st ?st2" by (simp add: same_results_def log_def update_item_def)
  obtain specs err where f: "fetch_itemslist cb ?st2 c = (specs, err)"
    by (cases "fetch_itemslist cb ?st2 c")
  have "snd (Collection_items cb st c) = fold (adopt cb c) specs ?st2"
    using None f by (simp add: Collection_items_def Let_def split: option.splits)
  with sr_trans[OF a sr_fold_adopt[of ?st2 cb c specs]] show ?thesis by simp
qed

lemma sr_Item_items: "same_results st (snd (Item_items cb st a))"
  using sr_Collection_items[of st cb a]
  by (auto simp: Item_items_def split: item_class.splits prod.splits sum.splits)

lemma sr_move_up: "same_results st (move_up st)"
  by (simp add: same_results_def move_up_def log_def Let_def)

lemma sr_nav_update [simp]:
  "same_results st (st'\<lparr>current_item := a, collection_path := p\<rparr>) = same_results st st'"
  by (simp add: same_results_def)

lemma sr_log_iff [simp]: "same_results st (log e st') = same_results st st'"
  by (simp add: same_results_def log_def)

lemma sr_move_to: "same_results st (snd (move_to cb st k))"
  using sr_Item_items[of st cb "current_item st"]
  by (auto simp: move_to_def BaseScraper_items_def split: prod.splits sum.splits option.splits)

lemma sr_move_here: "same_results st (snd (Dataset_move_here cb st a))"
proof (cases "Item_parent st a")
  case (Inl e)
  then show ?thesis by (simp add: Dataset_move_here_def)
next
  case (Inr p)
  obtain r st1 where i: "Item_items cb st p = (r, st1)" by (cases "Item_items cb st p")
  have l1: "same_results st st1" using sr_Item_items[of st cb p] i by simp
  have l2: "same_results st1 (snd (move_to cb s (KStr (id_at s a))))"
    if "s = move_up st1 \<or> s = st1" for s
    using that sr_move_to[of s cb "KStr (id_at s a)"] sr_move_up[of st1]
    by (auto intro: sr_trans)
  have l3: "same_results st (snd (move_to cb s (KStr (id_at s a))))"
    if "s = move_up st1 \<or> s = st1" for s
    using sr_trans[OF l1 l2[OF that]] .
  show ?thesis
  proof (cases r)
    case (Inl e)
    with Inr i l1 show ?thesis by (simp add: Dataset_move_here_def)
  next
    case inr: (Inr o1)
    show ?thesis
    proof (cases o1)
      case None
      with inr Inr i l1 show ?thesis by (simp add: Dataset_move_here_def)
    next
      case (Some xs)
      let ?s = "if Itemslist_contains (id_at st1) xs (KItem a) then move_up st1 else st1"
      have "?s = move_up st1 \<or> ?s = st1" by simp
      from l3[OF this] have l4: "same_results st (snd (move_to cb ?s (KStr (id_at ?s a))))" .
      obtain r3 st3 where mt: "move_to cb ?s (KStr (id_at ?s a)) = (r3, st3)"
        by (cases "move_to cb ?s (KStr (id_at ?s a))")
      have "snd (Dataset_move_here cb st a) = st3"
        using Some inr Inr i mt by (cases r3) (simp_all add: Dataset_move_here_def Let_def)
      with l4 mt show ?thesis by simp
    qed
  qed
qed

lemma sr_dimensions: "same_results st (snd (Dataset_dimensions cb st a))"
proof -
  let ?mv = "if current_item st \<noteq> a then Dataset_move_here cb st a else (Inr (), st)"
  obtain r st1 where m: "?mv = (r, st1)" by (cases ?mv)
  have l1: "same_results st st1"
    using m sr_move_here[of st cb a] by (auto split: if_splits)
  show ?thesis
  proof (cases r)
    case (Inl e)
    with m l1 show ?thesis by (simp add: Dataset_dimensions_def)
  next
    case (Inr u)
    show ?thesis
    proof (cases "dimensions_attr (item_at st1 a)")
      case (Some ds)
      with Inr m l1 show ?thesis by (simp add: Dataset_dimensions_def)
    next
      case None
      let ?st3 = "log (Call_fetch_dimensions a) (update_item a (\<lambda>it. it\<lparr>dimensions_attr := Some []\<rparr>) st1)"
      have a: "same_results st1 ?st3" by (simp add: same_results_def log_def update_item_def)
      obtain ds err where f: "fetch_dimensions cb ?st3 a = (ds, err)"
        by (cases "fetch_dimensions cb ?st3 a")
      have "snd (Dataset_dimensions cb st a) = fold (attach a) ds ?st3"
        using None Inr m f by (simp add: Dataset_dimensions_def Let_def split: option.splits)
      with sr_trans[OF l1 sr_trans[OF a sr_fold_attach[of ?st3 a ds]]] show ?thesis by simp
    qed
  qed
qed

lemma sr_allowed_values: "same_results st (snd (Dimension_allowed_values cb st d))"
  by (simp add: Dimension_allowed_values_def Let_def same_results_def update_dim_def log_def
        split: option.splits sum.splits)

lemma sr_DimensionValue_init: "same_results st (snd (DimensionValue_init cb st v d))"
  using sr_allowed_values[of st cb d]
  by (auto simp: DimensionValue_init_def split: prod.splits sum.splits)

lemma Dimensionslist_getitem_id:
  assumes "Dimensionslist_getitem ident xs (KStr k) = Inr x"
  shows "ident x = k"
proof -
  from assms have "filter (\<lambda>y. ident y = k) xs \<noteq> [] \<and> x = hd (filter (\<lambda>y. ident y = k) xs)"
    by (auto simp: Dimensionslist_getitem_def split: list.splits if_splits)
  then have "x \<in> set (filter (\<lambda>y. ident y = k) xs)" using hd_in_set by metis
  then show ?thesis by simp
qed

lemma DimensionValue_init_fields:
  assumes "DimensionValue_init cb st x d = (Inr dv, st')"
  shows "dv_value dv = x \<and> dv_id dv = dim_id_at st d"
  using assms
  by (auto simp: DimensionValue_init_def dim_id_at_def split: prod.splits sum.splits)

lemma resolve_one_Prebuilt:
  "resolve_one cb d dd k (Prebuilt dv) dim st = (Inr dim, dimensionvalues_append dv st)"
  by (simp add: resolve_one_def)

lemma resolve_one_Literal:
  assumes "resolve_one cb d dd k (Literal x) dim st = (Inr dim', st')"
  shows "same_results st st' \<and> (\<exists>dv. dim' = Some dv \<and> dv_value dv = x \<and> dv_id dv = k)"
proof -
  obtain r st1 where i: "Dataset_dimensions cb st d = (r, st1)" by (cases "Dataset_dimensions cb st d")
  have l1: "same_results st st1" using sr_dimensions[of st cb d] i by simp
  from assms i obtain ds where r: "r = Inr ds" by (cases r) (simp_all add: resolve_one_def)
  from assms i r have c: "Dimensionslist_contains (dim_id_at st1) ds (KStr k) = Inr True"
    by (auto simp: resolve_one_def Dimension_init_def split: sum.splits bool.splits)
  from assms i r c obtain da where g: "Dimensionslist_getitem (dim_id_at st1) dd (KStr k) = Inr da"
    by (cases "Dimensionslist_getitem (dim_id_at st1) dd (KStr k)") (simp_all add: resolve_one_def)
  obtain r2 st2 where v: "DimensionValue_init cb st1 x da = (r2, st2)"
    by (cases "DimensionValue_init cb st1 x da")
  from assms i r c g v obtain dv where dv: "r2 = Inr dv" "dim' = Some dv" "st' = st2"
    by (cases r2) (simp_all add: resolve_one_def)
  have l2: "same_results st1 st2" using sr_DimensionValue_init[of st1 cb x da] v by simp
  from DimensionValue_init_fields[of cb st1 x da dv st2] v dv
  have "dv_value dv = x" "dv_id dv = dim_id_at st1 da" by simp_all
  moreover have "dim_id_at st1 da = k" using g by (rule Dimensionslist_getitem_id)
  ultimately show ?thesis using dv sr_trans[OF l1 l2] by simp
qed

lemma tag_visible_append: "tag_visible k v vs \<Longrightarrow> tag_visible k v (vs @ ws)"
  by (cases v) (auto simp: tag_visible_def list_ex_iff)

lemma tag_visible_prepend: "tag_visible k v ws \<Longrightarrow> tag_visible k v (vs @ ws)"
  by (cases v) (auto simp: tag_visible_def list_ex_iff)

lemma resolve_dimensions_ok:
  assumes "resolve_dimensions cb d dd kvs dim st = (Inr u, st')"
  shows "heap_dicts st' = heap_dicts st \<and> heap_results st' = heap_results st \<and>
         (\<exists>vs. Result_dimensionvalues st' = Result_dimensionvalues st @ vs \<and>
               list_all (\<lambda>kv. tag_visible (fst kv) (snd kv) vs) kvs)"
  using assms
proof (induction kvs arbitrary: dim st)
  case Nil
  then show ?case by simp
next
  case (Cons kv kvs)
  obtain r st1 where i: "resolve_one cb d dd (fst kv) (snd kv) dim st = (r, st1)"
    by (cases "resolve_one cb d dd (fst kv) (snd kv) dim st")
  from Cons.prems i obtain dv where r: "r = Inr (Some dv)"
    and rest: "resolve_dimensions cb d dd kvs (Some dv) (dimensionvalues_append dv st1) = (Inr u, st')"
    by (cases r) (auto split: option.splits)
  let ?st2 = "dimensionvalues_append dv st1"
  note ih = Cons.IH[OF rest]
  then obtain vs where vs: "Result_dimensionvalues st' = Result_dimensionvalues ?st2 @ vs"
    "list_all (\<lambda>kv. tag_visible (fst kv) (snd kv) vs) kvs" by blast
  have st2: "heap_dicts ?st2 = heap_dicts st1" "heap_results ?st2 = heap_results st1"
    "Result_dimensionvalues ?st2 = Result_dimensionvalues st1 @ [dv]"
    by (simp_all add: dimensionvalues_append_def)
  have step: "heap_dicts st1 = heap_dicts st \<and> heap_results st1 = heap_results st \<and>
              (\<exists>ws. Result_dimensionvalues st1 @ [dv] = Result_dimensionvalues st @ ws \<and>
                    tag_visible (fst kv) (snd kv) ws)"
  proof (cases "snd kv")
    case (Prebuilt pv)
    with i r have "st1 = dimensionvalues_append pv st" by (simp add: resolve_one_Prebuilt)
    then have "heap_dicts st1 = heap_dicts st" "heap_results st1 = heap_results st"
      "Result_dimensionvalues st1 @ [dv] = Result_dimensionvalues st @ [pv, dv]"
      by (simp_all add: dimensionvalues_append_def)
    moreover have "tag_visible (fst kv) (snd kv) [pv, dv]" using Prebuilt by (simp add: tag_visible_def)
    ultimately show ?thesis by blast
  next
    case (Literal x)
    with i r have "resolve_one cb d dd (fst kv) (Literal x) dim st = (Inr (Some dv), st1)" by simp
    from resolve_one_Literal[OF this]
    have sr: "same_results st st1" and f: "dv_value dv = x" "dv_id dv = fst kv" by auto
    have "tag_visible (fst kv) (snd kv) [dv]" using Literal f by (simp add: tag_visible_def)
    with sr show ?thesis by (auto simp: same_results_def)
  qed
  then obtain ws where ws: "Result_dimensionvalues st1 @ [dv] = Result_dimensionvalues st @ ws"
    "tag_visible (fst kv) (snd kv) ws" by blast
  have a: "Result_dimensionvalues st' = Result_dimensionvalues st @ (ws @ vs)"
    using vs(1) st2(3) ws(1) by simp
  have b: "list_all (\<lambda>kv. tag_visible (fst kv) (snd kv) (ws @ vs)) (kv # kvs)"
    using vs(2) ws(2) by (auto simp: list_all_iff intro: tag_visible_append tag_visible_prepend)
  from ih step st2 a b show ?case by auto
qed

lemma ResultSet_append_attaches:
  assumes "ResultSet_append cb st rs r1 = (Inr (), st')"
    and "rs_dataset (heap_resultsets st ! rs) = Some d"
  shows "\<exists>vs. Result_dimensionvalues st' = Result_dimensionvalues st @ vs \<and>
              list_all (\<lambda>kv. tag_visible (fst kv) (snd kv) vs)
                (heap_dicts st ! raw_dimensions (heap_results st ! r1))"
proof -
  let ?st1 = "st\<lparr>heap_results := (heap_results st)
                   [r1 := (heap_results st ! r1)\<lparr>res_resultset := Some rs, res_dataset := Some d\<rparr>]\<rparr>"
  obtain r st2 where i: "Dataset_dimensions cb ?st1 d = (r, st2)"
    by (cases "Dataset_dimensions cb ?st1 d")
  have l1: "same_results ?st1 st2" using sr_dimensions[of ?st1 cb d] i by simp
  from assms i obtain dd where r: "r = Inr dd"
    by (cases r) (simp_all add: ResultSet_append_def Let_def)
  let ?kvs = "heap_dicts st2 ! raw_dimensions (heap_results st2 ! r1)"
  have raw: "raw_dimensions (heap_results ?st1 ! r1) = raw_dimensions (heap_results st ! r1)"
    by (cases "r1 < length (heap_results st)") (simp_all add: list_update_beyond)
  have kvs: "?kvs = heap_dicts st ! raw_dimensions (heap_results st ! r1)"
    using l1 raw by (simp add: same_results_def)
  obtain r3 st3 where j: "resolve_dimensions cb d dd ?kvs None st2 = (r3, st3)"
    by (cases "resolve_dimensions cb d dd ?kvs None st2")
  from assms i r j have r3: "r3 = Inr ()" and st': "st' = list_append rs r1 st3"
    by (cases r3; simp add: ResultSet_append_def Let_def)+
  from resolve_dimensions_ok[OF j[unfolded r3]] obtain vs where
    vs: "Result_dimensionvalues st3 = Result_dimensionvalues st2 @ vs"
        "list_all (\<lambda>kv. tag_visible (fst kv) (snd kv) vs) ?kvs" by blast
  have "Result_dimensionvalues st' = Result_dimensionvalues st @ vs"
    using vs(1) l1 unfolding st' by (simp add: same_results_def list_append_def)
  with vs(2) kvs show ?thesis by auto
qed

lemma Scraper_with_dimensions_eval:
  "Scraper_with_dimensions =
     Scraper_listed
     \<lparr> heap_items := (heap_items Scraper_listed)
                        [1 := (heap_items Scraper_listed ! 1)\<lparr>dimensions_attr := Some [0, 1, 2]\<rparr>],
       heap_dimensions :=
         [ \<lparr> dim_id = ''date'', dim_label = ''date'', dim_datatype = None,
              allowed_values_attr = None, dim_dataset = Some 1, dim_scraper = True \<rparr>,
           \<lparr> dim_id = ''municipality'', dim_label = ''municipality'', dim_datatype = None,
              allowed_values_attr = Some (Strings [''Robertsfors kommun'', Umea_kommun]),
              dim_dataset = Some 1, dim_scraper = True \<rparr>,
           \<lparr> dim_id = ''gender'', dim_label = ''gender'', dim_datatype = None,
              allowed_values_attr = None, dim_dataset = Some 1, dim_scraper = True \<rparr> ],
       current_item := 1, collection_path := [0, 1],
       trace := [HookInit, Call_fetch_itemslist 0, HookUp, HookTop, HookSelect,
                 Call_fetch_dimensions 1] \<rparr>"
  unfolding Scraper_with_dimensions_def
  by (simp add: Scraper_listed_eval) (simp add: model_defs)

lemma row_appended:
  "fst (ResultSet_append Scraper (snd (row_with Dataset_1_tags)) 0 (fst (row_with Dataset_1_tags))) = Inr ()
   \<and> rs_dataset (heap_resultsets (snd (row_with Dataset_1_tags)) ! 0) = Some 1
   \<and> heap_dicts (snd (row_with Dataset_1_tags))
        ! raw_dimensions (heap_results (snd (row_with Dataset_1_tags)) ! fst (row_with Dataset_1_tags))
      = Dataset_1_tags
   \<and> Result_dimensionvalues (snd (row_with Dataset_1_tags)) = []"
  unfolding row_with_def Scraper_with_dimensions_eval Dataset_1_tags_def
  by (simp add: Scraper_listed_eval with_resultset_def)
     (simp add: model_defs)

section \<open>The list of dimension values is shared\<close>

text \<open>
  C10. Every Result reads the same list \<^verbatim>\<open>dimensionvalues\<close>, the one of the class;
  two Results built without a \<^verbatim>\<open>dimensions\<close> argument are distinct objects whose
  \<^verbatim>\<open>raw_dimensions\<close> is the same dictionary; and when a Result \<open>r1\<close> is appended
  to a result set owned by a dataset and the append returns, the list read through any
  Result \<open>r2\<close> is the list before the append followed by new values, among which every
  raw tag of \<open>r1\<close> has its resolved value.
\<close>

theorem dimensionvalues_shared_by_all_results:
  "Result_dimensionvalues_of st r1 = Result_dimensionvalues_of st r2
   \<and> raw_dimensions (Result_init v1 None :: 'av result) = raw_dimensions (Result_init v2 None :: 'av result)
   \<and> fst (new_result (omitted v1) st) \<noteq> fst (new_result (omitted v2) (snd (new_result (omitted v1) st)))
   \<and> raw_dimensions (heap_results (snd (new_result (omitted v2) (snd (new_result (omitted v1) st))))
                      ! fst (new_result (omitted v1) st))
     = raw_dimensions (heap_results (snd (new_result (omitted v2) (snd (new_result (omitted v1) st))))
                      ! fst (new_result (omitted v2) (snd (new_result (omitted v1) st))))
   \<and> (ResultSet_append cb st rs r1 = (Inr (), st') \<and> rs_dataset (heap_resultsets st ! rs) = Some d \<longrightarrow>
        (\<exists>vs. Result_dimensionvalues_of st' r2 = Result_dimensionvalues_of (st :: 'av state) r2 @ vs
              \<and> list_all (\<lambda>kv. tag_visible (fst kv) (snd kv) vs)
                   (heap_dicts st ! raw_dimensions (heap_results st ! r1))))"
proof -
  have a: "Result_dimensionvalues_of st r1 = Result_dimensionvalues_of st r2"
    by (simp add: Result_dimensionvalues_of_def)
  have b: "raw_dimensions (Result_init v1 None :: 'av result) = raw_dimensions (Result_init v2 None :: 'av result)"
    by (simp add: Result_init_def)
  have c: "fst (new_result (omitted v1) st) \<noteq> fst (new_result (omitted v2) (snd (new_result (omitted v1) st)))"
    by (simp add: new_result_def omitted_def)
  have d: "raw_dimensions (heap_results (snd (new_result (omitted v2) (snd (new_result (omitted v1) st))))
                      ! fst (new_result (omitted v1) st))
     = raw_dimensions (heap_results (snd (new_result (omitted v2) (snd (new_result (omitted v1) st))))
                      ! fst (new_result (omitted v2) (snd (new_result (omitted v1) st))))"
    by (simp add: new_result_def omitted_def Result_init_def nth_append)
  have e: "\<exists>vs. Result_dimensionvalues_of st' r2 = Result_dimensionvalues_of st r2 @ vs
              \<and> list_all (\<lambda>kv. tag_visible (fst kv) (snd kv) vs)
                   (heap_dicts st ! raw_dimensions (heap_results st ! r1))"
    if "ResultSet_append cb st rs r1 = (Inr (), st')" "rs_dataset (heap_resultsets st ! rs) = Some d"
    using ResultSet_append_attaches[OF that] by (simp add: Result_dimensionvalues_of_def)
  from a b c d e show ?thesis by blast
qed

theorem dimensionvalues_shared_by_all_results_witness:
  "ResultSet_append Scraper (snd (row_with Dataset_1_tags)) 0 (fst (row_with Dataset_1_tags))
     = (Inr (), snd (ResultSet_append Scraper (snd (row_with Dataset_1_tags)) 0 (fst (row_with Dataset_1_tags))))
   \<and> rs_dataset (heap_resultsets (snd (row_with Dataset_1_tags)) ! 0) = Some 1
   \<and> (\<exists>vs. Result_dimensionvalues_of
              (snd (ResultSet_append Scraper (snd (row_with Dataset_1_tags)) 0 (fst (row_with Dataset_1_tags)))) 7
            = vs
          \<and> list_all (\<lambda>kv. tag_visible (fst kv) (snd kv) vs) Dataset_1_tags)"
proof -
  let ?st = "snd (row_with Dataset_1_tags)"
  let ?r = "fst (row_with Dataset_1_tags)"
  let ?a = "ResultSet_append Scraper ?st 0 ?r"
  have h1: "?a = (Inr (), snd ?a)" using row_appended by (cases ?a) simp
  have h2: "rs_dataset (heap_resultsets ?st ! 0) = Some 1" using row_appended by simp
  have h3: "heap_dicts ?st ! raw_dimensions (heap_results ?st ! ?r) = Dataset_1_tags"
    using row_appended by simp
  have h4: "Result_dimensionvalues_of ?st 7 = []"
    using row_appended by (simp add: Result_dimensionvalues_of_def)
  from dimensionvalues_shared_by_all_results[of ?st ?r 7 JNull JNull Scraper 0 "snd ?a" 1]
  have "\<exists>vs. Result_dimensionvalues_of (snd ?a) 7 = Result_dimensionvalues_of ?st 7 @ vs
              \<and> list_all (\<lambda>kv. tag_visible (fst kv) (snd kv) vs)
                   (heap_dicts ?st ! raw_dimensions (heap_results ?st ! ?r))"
    using h1 h2 by blast
  then have "\<exists>vs. Result_dimensionvalues_of (snd ?a) 7 = vs
              \<and> list_all (\<lambda>kv. tag_visible (fst kv) (snd kv) vs) Dataset_1_tags"
    unfolding h3 h4 by simp
  with h1 h2 show ?thesis by blast
qed

section \<open>Appending a result to a result set\<close>

text \<open>
  C6. The claim: appending a Result whose raw tag value is already a DimensionValue
  succeeds and yields that same DimensionValue, exactly one resolved entry per raw
  tag. The code: the last statement of the loop, \<^verbatim>\<open>val.dimensionvalues.append(dim)\<close>,
  stands outside the \<^verbatim>\<open>else\<close> and runs for such a tag too. With the single tag
  \<^verbatim>\<open>gender\<close> the DimensionValue is appended and then \<^verbatim>\<open>dim\<close> is read unbound: the
  append raises \<^verbatim>\<open>UnboundLocalError\<close>. With a literal tag \<^verbatim>\<open>date\<close> before it the
  append returns, and the list holds three entries for the two tags, the value of
  \<^verbatim>\<open>date\<close> twice.
\<close>

theorem prebuilt_tag_raises_or_duplicates:
  "fst (ResultSet_append Scraper (snd (row_with [(''gender'', Prebuilt (gender_value ''female''))])) 0
          (fst (row_with [(''gender'', Prebuilt (gender_value ''female''))])))
     = Inl UnboundLocalError
   \<and> Result_dimensionvalues
        (snd (ResultSet_append Scraper (snd (row_with [(''gender'', Prebuilt (gender_value ''female''))])) 0
                (fst (row_with [(''gender'', Prebuilt (gender_value ''female''))]))))
     = [gender_value ''female'']
   \<and> fst (ResultSet_append Scraper
             (snd (row_with [(''date'', Literal (JStr ''2017-08-10'')),
                             (''gender'', Prebuilt (gender_value ''female''))])) 0
             (fst (row_with [(''date'', Literal (JStr ''2017-08-10'')),
                             (''gender'', Prebuilt (gender_value ''female''))])))
     = Inr ()
   \<and> Result_dimensionvalues
        (snd (ResultSet_append Scraper
                (snd (row_with [(''date'', Literal (JStr ''2017-08-10'')),
                                (''gender'', Prebuilt (gender_value ''female''))])) 0
                (fst (row_with [(''date'', Literal (JStr ''2017-08-10'')),
                                (''gender'', Prebuilt (gender_value ''female''))]))))
     = [date_value ''2017-08-10'', gender_value ''female'', date_value ''2017-08-10'']"
  unfolding row_with_def Scraper_with_dimensions_eval
  by (simp add: Scraper_listed_eval with_resultset_def)
     (simp add: model_defs gender_value_def date_value_def)

text \<open>
  C7. The claim: for a raw tag whose value is no DimensionValue and whose id is not
  among the dataset's dimensions, append succeeds and attaches a DimensionValue bound
  to an anonymous Dimension with the raw id. The code builds that dimension by
  \<^verbatim>\<open>Dimension()\<close>, a call without the required \<^verbatim>\<open>id_\<close>: a \<^verbatim>\<open>TypeError\<close>. For the tag
  \<^verbatim>\<open>foo\<close> on a result set of \<^verbatim>\<open>Dataset_1\<close> the append raises it, nothing is attached
  and the result is not in the result set.
\<close>

theorem undeclared_dimension_raises_TypeError:
  "Dimension_init Datatype None None None None = Inl TypeError
   \<and> fst (ResultSet_append Scraper (snd (row_with [(''foo'', Literal (JStr ''bar''))])) 0
            (fst (row_with [(''foo'', Literal (JStr ''bar''))])))
     = Inl TypeError
   \<and> Result_dimensionvalues
        (snd (ResultSet_append Scraper (snd (row_with [(''foo'', Literal (JStr ''bar''))])) 0
                (fst (row_with [(''foo'', Literal (JStr ''bar''))]))))
     = []
   \<and> rs_list (heap_resultsets
        (snd (ResultSet_append Scraper (snd (row_with [(''foo'', Literal (JStr ''bar''))])) 0
                (fst (row_with [(''foo'', Literal (JStr ''bar''))])))) ! 0)
     = []"
  unfolding row_with_def Scraper_with_dimensions_eval
  by (simp add: Scraper_listed_eval with_resultset_def)
     (simp add: model_defs)

section \<open>Allowed values of a dimension\<close>

text \<open>
  C8. The claim: a Dimension built with neither allowed values nor datatype fetches its
  allowed values lazily and memoizes them, and for allowed values with ids male/female
  and labels Men/Women the lookups by id \<^verbatim>\<open>"female"\<close> and by label \<^verbatim>\<open>"Women"\<close> both
  succeed and give equal objects with id \<^verbatim>\<open>female\<close> and label \<^verbatim>\<open>Women\<close> (the test
  \<^verbatim>\<open>test_select_allowed_values\<close> asserts it). The code, on the test scraper's dimension
  \<^verbatim>\<open>gender\<close>: the first access stores what \<^verbatim>\<open>_fetch_allowed_values\<close> returns, a generator
  object, and a second access returns it without a new call; a DimensionValue built for
  that dimension takes id and label from the dimension, so the values for male and
  female both have id and label \<^verbatim>\<open>gender\<close>; and in a Dimensionslist of the two, which
  compares ids only, the lookups of \<^verbatim>\<open>"female"\<close> and of \<^verbatim>\<open>"Women"\<close> both end in
  \<^verbatim>\<open>StopIteration\<close>.
\<close>

theorem allowed_value_lookup_by_id_and_label_fails:
  "Dimension_init no_Datatype (Some ''gender'') None None None
     = Inr \<lparr> dim_id = ''gender'', dim_label = ''gender'', dim_datatype = None,
             allowed_values_attr = None, dim_dataset = None, dim_scraper = False \<rparr>
   \<and> fst (Dimension_allowed_values Scraper Scraper_with_dimensions 2) = Inr (Some GeneratorObject)
   \<and> allowed_values_attr
        (dim_at (snd (Dimension_allowed_values Scraper Scraper_with_dimensions 2)) 2)
        = Some GeneratorObject
   \<and> Dimension_allowed_values Scraper
        (snd (Dimension_allowed_values Scraper Scraper_with_dimensions 2)) 2
        = (Inr (Some GeneratorObject), snd (Dimension_allowed_values Scraper Scraper_with_dimensions 2))
   \<and> fst (DimensionValue_init Scraper Scraper_with_dimensions (JStr ''male'') 2)
        = Inr (gender_value ''male'')
   \<and> fst (DimensionValue_init Scraper Scraper_with_dimensions (JStr ''female'') 2)
        = Inr (gender_value ''female'')
   \<and> dv_id (gender_value ''female'') = ''gender''
   \<and> dv_label (gender_value ''female'') = ''gender''
   \<and> Dimensionslist_get dv_id [gender_value ''male'', gender_value ''female''] (KStr ''female'')
        = Inl StopIteration
   \<and> Dimensionslist_get dv_id [gender_value ''male'', gender_value ''female''] (KStr ''Women'')
        = Inl StopIteration"
  unfolding Scraper_with_dimensions_eval
  by (simp add: Scraper_listed_eval) (simp add: model_defs gender_value_def)

section \<open>One cache for all datasets\<close>

text \<open>
  C2. The claim: each Dataset has its own cache, so a fetch on a second dataset with a
  structurally equal query returns a result set of that dataset, with rows fetched for
  it. The code: \<^verbatim>\<open>_data\<close> is the dictionary of the class, keyed by the hash of the
  query alone. After \<^verbatim>\<open>Dataset_1.fetch()\<close> of the test scraper, \<^verbatim>\<open>Dataset_2.fetch()\<close>
  returns the result set at address 0 and leaves the state as it was (no collaborator
  call, no cursor movement): that result set is owned by \<^verbatim>\<open>Dataset_1\<close> and holds its
  row 127, not the rows 12 and 130 the collaborator yields for \<^verbatim>\<open>Dataset_2\<close>. This holds
  for every digest and encoder.
\<close>

theorem cache_shared_between_datasets:
  "fst (Dataset_fetch md5 dumps Scraper Scraper_listed 1 JNull) = Inr 0
   \<and> Dataset_fetch md5 dumps Scraper (Scraper_fetched md5 dumps) 2 JNull
       = (Inr 0, Scraper_fetched md5 dumps)
   \<and> rs_dataset (heap_resultsets (Scraper_fetched md5 dumps) ! 0) = Some 1
   \<and> map (\<lambda>r. res_value (heap_results (Scraper_fetched md5 dumps) ! r))
          (rs_list (heap_resultsets (Scraper_fetched md5 dumps) ! 0)) = [JInt 127]
   \<and> map rspec_value (fst (Scraper_fetch_data ''Dataset_2'')) = [JInt 12, JInt 130]"
  unfolding Scraper_fetched_def
  by (simp add: Scraper_listed_eval) (simp add: model_defs)

section \<open>A second fetch with the keys reordered\<close>

lemma rs_resolve_one:
  "heap_resultsets (snd (resolve_one cb d dd k v dim st)) = heap_resultsets st"
proof (cases v)
  case (Prebuilt dv)
  then show ?thesis by (simp add: resolve_one_def dimensionvalues_append_def)
next
  case (Literal x)
  obtain r st1 where i: "Dataset_dimensions cb st d = (r, st1)" by (cases "Dataset_dimensions cb st d")
  have l1: "heap_resultsets st1 = heap_resultsets st"
    using sr_dimensions[of st cb d] i by (simp add: same_results_def)
  show ?thesis
  proof (cases r)
    case (Inl e)
    with Literal i l1 show ?thesis by (simp add: resolve_one_def)
  next
    case (Inr ds)
    show ?thesis
    proof (cases "Dimensionslist_contains (dim_id_at st1) ds (KStr k)")
      case (Inl e)
      with Inr Literal i l1 show ?thesis by (simp add: resolve_one_def)
    next
      case c: (Inr b)
      show ?thesis
      proof (cases b)
        case False
        with c Inr Literal i l1 show ?thesis by (simp add: resolve_one_def Dimension_init_def)
      next
        case True
        show ?thesis
        proof (cases "Dimensionslist_getitem (dim_id_at st1) dd (KStr k)")
          case (Inl e)
          with True c Inr Literal i l1 show ?thesis by (simp add: resolve_one_def)
        next
          case g: (Inr da)
          obtain r2 st2 where v: "DimensionValue_init cb st1 x da = (r2, st2)"
            by (cases "DimensionValue_init cb st1 x da")
          have l2: "heap_resultsets st2 = heap_resultsets st1"
            using sr_DimensionValue_init[of st1 cb x da] v by (simp add: same_results_def)
          have "snd (resolve_one cb d dd k v dim st) = st2"
            using g True c Inr Literal i v by (cases r2) (simp_all add: resolve_one_def)
          with l1 l2 show ?thesis by simp
        qed
      qed
    qed
  qed
qed

lemma rs_resolve_dimensions:
  "heap_resultsets (snd (resolve_dimensions cb d dd kvs dim st)) = heap_resultsets st"
proof (induction kvs arbitrary: dim st)
  case Nil
  then show ?case by simp
next
  case (Cons kv kvs)
  obtain r st1 where i: "resolve_one cb d dd (fst kv) (snd kv) dim st = (r, st1)"
    by (cases "resolve_one cb d dd (fst kv) (snd kv) dim st")
  have l1: "heap_resultsets st1 = heap_resultsets st"
    using rs_resolve_one[of cb d dd "fst kv" "snd kv" dim st] i by simp
  show ?case
  proof (cases r)
    case (Inl e)
    with i l1 show ?thesis by simp
  next
    case (Inr o1)
    show ?thesis
    proof (cases o1)
      case None
      with Inr i l1 show ?thesis by simp
    next
      case (Some dv)
      have "heap_resultsets (snd (resolve_dimensions cb d dd kvs (Some dv) (dimensionvalues_append dv st1)))
            = heap_resultsets st1"
        using Cons.IH[of "Some dv" "dimensionvalues_append dv st1"]
        by (simp add: dimensionvalues_append_def)
      with Some Inr i l1 show ?thesis by simp
    qed
  qed
qed

lemma owners_list_append:
  "map rs_dataset (heap_resultsets (list_append rs val st)) = map rs_dataset (heap_resultsets st)"
  by (cases "rs < length (heap_resultsets st)")
     (auto simp: list_append_def list_eq_iff_nth_eq nth_list_update list_update_beyond)

lemma owners_ResultSet_append:
  "map rs_dataset (heap_resultsets (snd (ResultSet_append cb st rs val)))
     = map rs_dataset (heap_resultsets st)"
proof (cases "rs_dataset (heap_resultsets st ! rs)")
  case None
  then show ?thesis
    using owners_list_append[of rs val "st\<lparr>heap_results := (heap_results st)
                   [val := (heap_results st ! val)\<lparr>res_resultset := Some rs, res_dataset := None\<rparr>]\<rparr>"]
    by (simp add: ResultSet_append_def Let_def)
next
  case (Some d)
  let ?st1 = "st\<lparr>heap_results := (heap_results st)
                   [val := (heap_results st ! val)\<lparr>res_resultset := Some rs, res_dataset := Some d\<rparr>]\<rparr>"
  obtain r st2 where i: "Dataset_dimensions cb ?st1 d = (r, st2)"
    by (cases "Dataset_dimensions cb ?st1 d")
  have l1: "heap_resultsets st2 = heap_resultsets st"
    using sr_dimensions[of ?st1 cb d] i by (simp add: same_results_def)
  show ?thesis
  proof (cases r)
    case (Inl e)
    with Some i l1 show ?thesis by (simp add: ResultSet_append_def Let_def)
  next
    case (Inr dd)
    let ?kvs = "heap_dicts st2 ! raw_dimensions (heap_results st2 ! val)"
    obtain r3 st3 where j: "resolve_dimensions cb d dd ?kvs None st2 = (r3, st3)"
      by (cases "resolve_dimensions cb d dd ?kvs None st2")
    have l2: "heap_resultsets st3 = heap_resultsets st2"
      using rs_resolve_dimensions[of cb d dd ?kvs None st2] j by simp
    from Some i Inr j l1 l2 owners_list_append[of rs val st3] show ?thesis
      by (cases r3) (simp_all add: ResultSet_append_def Let_def)
  qed
qed

lemma owners_new_result [simp]: "heap_resultsets (snd (new_result sp st)) = heap_resultsets st"
  by (simp add: new_result_def split: option.splits)

lemma owners_append_all:
  "map rs_dataset (heap_resultsets (snd (append_all cb rs sps st)))
     = map rs_dataset (heap_resultsets st)"
proof (induction sps arbitrary: st)
  case Nil
  then show ?case by simp
next
  case (Cons sp sps)
  obtain r st1 where n: "new_result sp st = (r, st1)" by (cases "new_result sp st")
  have l0: "heap_resultsets st1 = heap_resultsets st" using owners_new_result[of sp st] n by simp
  obtain e st2 where a: "ResultSet_append cb st1 rs r = (e, st2)"
    by (cases "ResultSet_append cb st1 rs r")
  have l1: "map rs_dataset (heap_resultsets st2) = map rs_dataset (heap_resultsets st)"
    using owners_ResultSet_append[of cb st1 rs r] a l0 by simp
  show ?case
  proof (cases e)
    case (Inl x)
    with n a l1 show ?thesis by simp
  next
    case (Inr u)
    with n a l1 Cons.IH[of st2] show ?thesis by simp
  qed
qed

text \<open>On a miss the fetch returns the result set it created, owned by the dataset.\<close>

lemma fetch_miss_creates:
  assumes a: "a < length (heap_items st)" and q: "truthy q"
    and f: "Dataset_fetch md5 dumps cb st a q = (Inr rs, st')"
    and miss: "Dataset_data st (Dataset_hash md5 dumps q) = None"
  shows "rs = length (heap_resultsets st) \<and> rs < length (heap_resultsets st')
         \<and> rs_dataset (heap_resultsets st' ! rs) = Some a"
proof -
  let ?st1 = "update_item a (\<lambda>it. it\<lparr>query := q\<rparr>) st"
  let ?h = "Dataset_hash md5 dumps q"
  have q1: "query (item_at ?st1 a) = q" using a by (simp add: update_item_def item_at_def)
  have d1: "Dataset_data ?st1 ?h = None" using miss by (simp add: update_item_def)
  have r1: "heap_resultsets ?st1 = heap_resultsets st" by (simp add: update_item_def)
  let ?mv = "if current_item ?st1 \<noteq> a then Dataset_move_here cb ?st1 a else (Inr (), ?st1)"
  obtain r2 st2 where m: "?mv = (r2, st2)" by (cases ?mv)
  have r2s: "heap_resultsets st2 = heap_resultsets st"
  proof (cases "current_item ?st1 \<noteq> a")
    case True
    with m have "Dataset_move_here cb ?st1 a = (r2, st2)" by simp
    with sr_move_here[of ?st1 cb a] r1 show ?thesis by (simp add: same_results_def)
  next
    case False
    with m have "st2 = ?st1" by simp
    with r1 show ?thesis by simp
  qed
  from f q q1 d1 m obtain u where r2: "r2 = Inr u"
    by (cases r2) (simp_all add: Dataset_fetch_def Let_def)
  let ?rs = "length (heap_resultsets st2)"
  let ?st3 = "st2\<lparr>heap_resultsets := heap_resultsets st2 @
               [\<lparr> rs_list = [], rs_dialect = dialect (item_at st2 a), rs_dataset = Some a \<rparr>]\<rparr>"
  let ?st4 = "log (Call_fetch_data a (query (item_at ?st3 a))) ?st3"
  obtain rows err where d: "fetch_data cb ?st4 a (query (item_at ?st4 a)) = (rows, err)"
    by (cases "fetch_data cb ?st4 a (query (item_at ?st4 a))")
  obtain r5 st5 where ap: "append_all cb ?rs rows ?st4 = (r5, st5)"
    by (cases "append_all cb ?rs rows ?st4")
  have o5: "map rs_dataset (heap_resultsets st5) = map rs_dataset (heap_resultsets st2) @ [Some a]"
    using owners_append_all[of cb ?rs rows ?st4] ap by (simp add: log_def)
  from f q q1 d1 m r2 d ap have res: "rs = ?rs" "st' = st5\<lparr>Dataset_data := (Dataset_data st5)(?h \<mapsto> ?rs)\<rparr>"
    by (cases r5; cases err; simp add: Dataset_fetch_def Let_def)+
  have len5: "length (heap_resultsets st5) = Suc ?rs"
    using arg_cong[OF o5, of length] by simp
  have "map rs_dataset (heap_resultsets st5) ! ?rs = Some a" unfolding o5 by (simp add: nth_append)
  with len5 have own: "rs_dataset (heap_resultsets st5 ! ?rs) = Some a" by simp
  show ?thesis using res r2s len5 own by simp
qed

lemma fetch_hit_first:
  assumes a: "a < length (heap_items st)" and q: "truthy q"
    and f: "Dataset_fetch md5 dumps cb st a q = (Inr rs, st')"
    and hit: "Dataset_data st (Dataset_hash md5 dumps q) = Some rs0"
  shows "rs = rs0 \<and> st' = update_item a (\<lambda>it. it\<lparr>query := q\<rparr>) st"
  using fetch_hit[OF a q hit, of cb] f by simp

lemma sk: "sort_keys query_ab = query_ab" "sort_keys query_ba = query_ab"
  by (simp_all add: query_ab_def query_ba_def)

lemma first_fetch:
  "fst (Dataset_fetch (\<lambda>s. s) keys_digest Scraper Scraper_listed 1 query_ab) = Inr 0"
  by (simp add: Scraper_listed_eval Dataset_fetch_def Dataset_hash_def sk)
     (simp add: query_ab_def keys_digest_def model_defs)

lemma first_fetch_rows:
  "trace (snd (Dataset_fetch (\<lambda>s. s) keys_digest Scraper Scraper_listed 1 query_ab))
     = [HookInit, Call_fetch_itemslist 0, HookUp, HookTop, HookSelect,
        Call_fetch_data 1 query_ab, Call_fetch_dimensions 1, Call_fetch_allowed_values 0]
   \<and> rs_list (heap_resultsets (snd (Dataset_fetch (\<lambda>s. s) keys_digest Scraper Scraper_listed 1 query_ab)) ! 0)
       = [0]
   \<and> res_value (heap_results (snd (Dataset_fetch (\<lambda>s. s) keys_digest Scraper Scraper_listed 1 query_ab)) ! 0)
       = JInt 127"
  by (simp add: Scraper_listed_eval Dataset_fetch_def Dataset_hash_def sk)
     (simp add: query_ab_def keys_digest_def model_defs)

text \<open>
  C1. Let a fetch of the dataset \<open>a\<close> with the query \<open>q1\<close> return the result set \<open>rs\<close>,
  and let \<open>q2\<close> be structurally equal to \<open>q1\<close> and differ from it (in the insertion
  order of keys). Then both queries hash identically, whatever the digest and the
  encoder are. After the first fetch \<open>rs\<close> is the entry of the cache under that hash:
  if nothing was cached there before, \<open>rs\<close> is the result set the fetch created, in the
  store and owned by \<open>a\<close>; if an entry was cached there, \<open>rs\<close> is that entry and the
  fetch changed only the stored query. A second fetch with \<open>q2\<close> returns the same
  result set \<open>rs\<close>, still the cache's entry under the hash, and changes nothing but the
  dataset's stored query: the trace has no new collaborator call, the cursor and the
  path stack are where they were, no result set was created and the cache is the same.
\<close>

theorem fetch_reordered_query_hits_cache:
  assumes "structurally_equal q1 q2" "q1 \<noteq> q2" "a < length (heap_items st)"
    and "Dataset_fetch md5 dumps cb st a q1 = (Inr rs, st')"
  shows "Dataset_hash md5 dumps q1 = Dataset_hash md5 dumps q2
         \<and> Dataset_data st' (Dataset_hash md5 dumps q1) = Some rs
         \<and> (Dataset_data st (Dataset_hash md5 dumps q1) = None \<longrightarrow>
               rs = length (heap_resultsets st) \<and> rs < length (heap_resultsets st')
               \<and> rs_dataset (heap_resultsets st' ! rs) = Some a)
         \<and> (\<forall>rs0. Dataset_data st (Dataset_hash md5 dumps q1) = Some rs0 \<longrightarrow>
               rs = rs0 \<and> st' = update_item a (\<lambda>it. it\<lparr>query := q1\<rparr>) st)
         \<and> Dataset_fetch md5 dumps cb st' a q2 = (Inr rs, update_item a (\<lambda>it. it\<lparr>query := q2\<rparr>) st')
         \<and> Dataset_data (snd (Dataset_fetch md5 dumps cb st' a q2)) (Dataset_hash md5 dumps q2) = Some rs
         \<and> trace (snd (Dataset_fetch md5 dumps cb st' a q2)) = trace st'
         \<and> current_item (snd (Dataset_fetch md5 dumps cb st' a q2)) = current_item st'
         \<and> collection_path (snd (Dataset_fetch md5 dumps cb st' a q2)) = collection_path st'
         \<and> heap_resultsets (snd (Dataset_fetch md5 dumps cb st' a q2)) = heap_resultsets st'
         \<and> Dataset_data (snd (Dataset_fetch md5 dumps cb st' a q2)) = Dataset_data st'"
proof -
  from structurally_equal_truthy[OF assms(1,2)] have t: "truthy q1" "truthy q2" by simp_all
  have h: "Dataset_hash md5 dumps q1 = Dataset_hash md5 dumps q2"
    using structurally_equal_sort_keys[OF assms(1)] by (simp add: Dataset_hash_def)
  from fetch_caches[OF assms(3) t(1) assms(4)]
  have c1: "Dataset_data st' (Dataset_hash md5 dumps q1) = Some rs" and a': "a < length (heap_items st')"
    by simp_all
  have c: "Dataset_data st' (Dataset_hash md5 dumps q2) = Some rs" using c1 unfolding h .
  have f2: "Dataset_fetch md5 dumps cb st' a q2 = (Inr rs, update_item a (\<lambda>it. it\<lparr>query := q2\<rparr>) st')"
    using a' t(2) c by (rule fetch_hit)
  have m: "Dataset_data st (Dataset_hash md5 dumps q1) = None \<longrightarrow>
               rs = length (heap_resultsets st) \<and> rs < length (heap_resultsets st')
               \<and> rs_dataset (heap_resultsets st' ! rs) = Some a"
    using fetch_miss_creates[OF assms(3) t(1) assms(4)] by blast
  have hi: "\<forall>rs0. Dataset_data st (Dataset_hash md5 dumps q1) = Some rs0 \<longrightarrow>
               rs = rs0 \<and> st' = update_item a (\<lambda>it. it\<lparr>query := q1\<rparr>) st"
    using fetch_hit_first[OF assms(3) t(1) assms(4)] by blast
  have fr: "Dataset_data (snd (Dataset_fetch md5 dumps cb st' a q2)) (Dataset_hash md5 dumps q2) = Some rs
         \<and> trace (snd (Dataset_fetch md5 dumps cb st' a q2)) = trace st'
         \<and> current_item (snd (Dataset_fetch md5 dumps cb st' a q2)) = current_item st'
         \<and> collection_path (snd (Dataset_fetch md5 dumps cb st' a q2)) = collection_path st'
         \<and> heap_resultsets (snd (Dataset_fetch md5 dumps cb st' a q2)) = heap_resultsets st'
         \<and> Dataset_data (snd (Dataset_fetch md5 dumps cb st' a q2)) = Dataset_data st'"
    unfolding f2 using c by (simp add: update_item_def)
  from h c1 m hi f2 fr show ?thesis by blast
qed

theorem fetch_reordered_query_hits_cache_witness:
  "structurally_equal query_ab query_ba \<and> query_ab \<noteq> query_ba
   \<and> 1 < length (heap_items Scraper_listed)
   \<and> fst (Dataset_fetch (\<lambda>s. s) keys_digest Scraper Scraper_listed 1 query_ab) = Inr 0
   \<and> Dataset_data Scraper_listed (Dataset_hash (\<lambda>s. s) keys_digest query_ab) = None
   \<and> Dataset_hash (\<lambda>s. s) keys_digest query_ab = Dataset_hash (\<lambda>s. s) keys_digest query_ba
   \<and> Dataset_data (snd (Dataset_fetch (\<lambda>s. s) keys_digest Scraper Scraper_listed 1 query_ab))
        (Dataset_hash (\<lambda>s. s) keys_digest query_ab) = Some 0
   \<and> 0 < length (heap_resultsets (snd (Dataset_fetch (\<lambda>s. s) keys_digest Scraper Scraper_listed 1 query_ab)))
   \<and> rs_dataset (heap_resultsets (snd (Dataset_fetch (\<lambda>s. s) keys_digest Scraper Scraper_listed 1 query_ab)) ! 0)
        = Some 1
   \<and> fst (Dataset_fetch (\<lambda>s. s) keys_digest Scraper
            (snd (Dataset_fetch (\<lambda>s. s) keys_digest Scraper Scraper_listed 1 query_ab)) 1 query_ba) = Inr 0
   \<and> trace (snd (Dataset_fetch (\<lambda>s. s) keys_digest Scraper
            (snd (Dataset_fetch (\<lambda>s. s) keys_digest Scraper Scraper_listed 1 query_ab)) 1 query_ba))
       = trace (snd (Dataset_fetch (\<lambda>s. s) keys_digest Scraper Scraper_listed 1 query_ab))
   \<and> trace (snd (Dataset_fetch (\<lambda>s. s) keys_digest Scraper Scraper_listed 1 query_ab))
       = [HookInit, Call_fetch_itemslist 0, HookUp, HookTop, HookSelect,
          Call_fetch_data 1 query_ab, Call_fetch_dimensions 1, Call_fetch_allowed_values 0]
   \<and> rs_list (heap_resultsets (snd (Dataset_fetch (\<lambda>s. s) keys_digest Scraper Scraper_listed 1 query_ab)) ! 0)
       = [0]
   \<and> res_value (heap_results (snd (Dataset_fetch (\<lambda>s. s) keys_digest Scraper Scraper_listed 1 query_ab)) ! 0)
       = JInt 127"
proof -
  have se: "structurally_equal query_ab query_ba"
    unfolding query_ab_def query_ba_def
    by (rule structurally_equal.se_dict) (auto intro: structurally_equal.intros)
  have ne: "query_ab \<noteq> query_ba" by (simp add: query_ab_def query_ba_def)
  have len: "1 < length (heap_items Scraper_listed)" by (simp add: Scraper_listed_eval)
  have mi: "Dataset_data Scraper_listed (Dataset_hash (\<lambda>s. s) keys_digest query_ab) = None"
    by (simp add: Scraper_listed_eval)
  let ?f = "Dataset_fetch (\<lambda>s. s) keys_digest Scraper Scraper_listed 1 query_ab"
  have f: "?f = (Inr 0, snd ?f)" using first_fetch by (cases ?f) simp
  note r = fetch_reordered_query_hits_cache[OF se ne len f]
  have h: "Dataset_hash (\<lambda>s. s) keys_digest query_ab = Dataset_hash (\<lambda>s. s) keys_digest query_ba"
    using r by (rule conjunct1)
  have c: "Dataset_data (snd ?f) (Dataset_hash (\<lambda>s. s) keys_digest query_ab) = Some 0"
    using r[THEN conjunct2, THEN conjunct1] .
  have o: "0 < length (heap_resultsets (snd ?f)) \<and> rs_dataset (heap_resultsets (snd ?f) ! 0) = Some 1"
    using r[THEN conjunct2, THEN conjunct2, THEN conjunct1] mi by blast
  have g: "fst (Dataset_fetch (\<lambda>s. s) keys_digest Scraper (snd ?f) 1 query_ba) = Inr 0"
    using r[THEN conjunct2, THEN conjunct2, THEN conjunct2, THEN conjunct2, THEN conjunct1]
    by (simp only: fst_conv)
  have t: "trace (snd (Dataset_fetch (\<lambda>s. s) keys_digest Scraper (snd ?f) 1 query_ba)) = trace (snd ?f)"
    using r[THEN conjunct2, THEN conjunct2, THEN conjunct2, THEN conjunct2, THEN conjunct2,
            THEN conjunct2, THEN conjunct1] .
  show ?thesis using se ne len first_fetch mi h c o g t first_fetch_rows by (intro conjI) blast+
qed

end
